(* ===== verification/Prelude.thy ===== *)
theory Prelude
  imports Main "HOL-Library.Word" "HOL-Library.Signed_Division"
begin

text \<open>
  The machine the proof-of-concept programs run on: Rust's integer types at their
  width, panics as values, the two compiler switches the programs observe, the
  arithmetic operators and methods of the standard library they use, and the effects
  of a \<open>main\<close> function (lines printed, assertions, exit status). Generic lemmas on
  words and lists that several components share are at the end.
\<close>

unbundle bit_operations_syntax

section \<open>Integer types\<close>

text \<open>
  A \<open>w\<close>-bit integer is a \<open>w word\<close>. The signed types share the representation of the
  unsigned ones, as two's complement does, and are read by \<open>sint\<close>. The programs are
  compiled for the 64-bit host, so \<open>usize\<close> and \<open>isize\<close> have 64 bits.
\<close>

type_synonym u8 = "8 word"
type_synonym u16 = "16 word"
type_synonym u32 = "32 word"
type_synonym u64 = "64 word"
type_synonym u128 = "128 word"
type_synonym usize = "64 word"
type_synonym i16 = "16 word"
type_synonym i32 = "32 word"
type_synonym i64 = "64 word"
type_synonym i128 = "128 word"
type_synonym isize = "64 word"

section \<open>Panics and results\<close>

datatype panic =
    AddOverflow | SubOverflow | MulOverflow | NegOverflow
  | DivideByZero | ShlOverflow | ShrOverflow
  | SliceOutOfRange
  | UnwrapNone | UnwrapErr
  | AssertFailed
  | Unreachable
  | ExplicitPanic
  | CapacityOverflow
  | UndefinedBehavior

text \<open>
  \<open>'a run\<close> is a Rust computation that returns a value (\<open>Inr\<close>) or panics (\<open>Inl\<close>);
  \<open>isl\<close> is what \<open>catch_unwind(..).is_err()\<close> observes. \<open>UndefinedBehavior\<close> is not a panic:
  it marks the point where an unsafe operation is used outside its contract, after which
  the language promises nothing; a theorem that excludes it says the operation is used
  correctly. \<open>Result<T, E>\<close> is a value
  the code inspects, so it is a type of its own.
\<close>

type_synonym 'a run = "panic + 'a"

datatype ('a, 'e) result = Ok 'a | Err 'e

fun bind_run :: "'a run \<Rightarrow> ('a \<Rightarrow> 'b run) \<Rightarrow> 'b run" where
  "bind_run (Inl p) f = Inl p"
| "bind_run (Inr x) f = f x"

fun unwrap_option :: "'a option \<Rightarrow> 'a run" where
  "unwrap_option None = Inl UnwrapNone"
| "unwrap_option (Some x) = Inr x"

fun unwrap_result :: "('a, 'e) result \<Rightarrow> 'a run" where
  "unwrap_result (Err e) = Inl UnwrapErr"
| "unwrap_result (Ok x) = Inr x"

lemma bind_run_cong [fundef_cong]:
  "m = m' \<Longrightarrow> (\<And>x. m' = Inr x \<Longrightarrow> f x = g x) \<Longrightarrow> bind_run m f = bind_run m' g"
  by (cases m') auto

lemma isl_bind_run: "isl (bind_run m f) \<longleftrightarrow> isl m \<or> isl (f (projr m))"
  by (cases m) auto

lemma bind_run_Inr_iff: "bind_run m f = Inr y \<longleftrightarrow> (\<exists>x. m = Inr x \<and> f x = Inr y)"
  by (cases m) auto

text \<open>A loop whose body may panic.\<close>

fun fold_run :: "('a \<Rightarrow> 's \<Rightarrow> 's run) \<Rightarrow> 'a list \<Rightarrow> 's \<Rightarrow> 's run" where
  "fold_run f [] s = Inr s"
| "fold_run f (x # xs) s = bind_run (f x s) (fold_run f xs)"

lemma fold_run_cong [fundef_cong]:
  "xs = ys \<Longrightarrow> s = t \<Longrightarrow> (\<And>x s. x \<in> set ys \<Longrightarrow> f x s = g x s) \<Longrightarrow> fold_run f xs s = fold_run g ys t"
proof -
  assume xs: "xs = ys" "s = t" and eq: "\<And>x s. x \<in> set ys \<Longrightarrow> f x s = g x s"
  from eq have "fold_run f ys t = fold_run g ys t"
  proof (induction ys arbitrary: t)
    case (Cons x ys)
    then have "f x t = g x t" "\<And>t. fold_run f ys t = fold_run g ys t" by simp_all
    then show ?case by (cases "g x t") simp_all
  qed simp
  then show ?thesis by (simp only: xs)
qed

section \<open>Build configuration\<close>

text \<open>
  Two independent switches of the compiler: \<open>-C overflow-checks\<close> decides whether an
  overflowing operator panics or wraps, \<open>-C debug-assertions\<close> is what
  \<open>cfg!(debug_assertions)\<close> reads.
\<close>

record build =
  overflow_checks :: bool
  debug_assertions :: bool

text \<open>The default build of the compiler, with both switches on.\<close>

definition checked_build :: build where
  "checked_build = \<lparr>overflow_checks = True, debug_assertions = True\<rparr>"

section \<open>Arithmetic\<close>

named_theorems arith_ops

text \<open>The operators on unsigned integers: panic or wrap on overflow.\<close>

definition prim_add :: "build \<Rightarrow> 'a::len word \<Rightarrow> 'a word \<Rightarrow> 'a word run" where
  [arith_ops]: "prim_add b x y =
     (if overflow_checks b \<and> 2 ^ LENGTH('a) \<le> unat x + unat y then Inl AddOverflow
      else Inr (x + y))"

definition prim_sub :: "build \<Rightarrow> 'a::len word \<Rightarrow> 'a word \<Rightarrow> 'a word run" where
  [arith_ops]: "prim_sub b x y =
     (if overflow_checks b \<and> unat x < unat y then Inl SubOverflow else Inr (x - y))"

definition prim_mul :: "build \<Rightarrow> 'a::len word \<Rightarrow> 'a word \<Rightarrow> 'a word run" where
  [arith_ops]: "prim_mul b x y =
     (if overflow_checks b \<and> 2 ^ LENGTH('a) \<le> unat x * unat y then Inl MulOverflow
      else Inr (x * y))"

text \<open>Division by zero panics in every build.\<close>

definition prim_div :: "'a::len word \<Rightarrow> 'a word \<Rightarrow> 'a word run" where
  [arith_ops]: "prim_div x y = (if y = 0 then Inl DivideByZero else Inr (x div y))"

definition prim_mod :: "'a::len word \<Rightarrow> 'a word \<Rightarrow> 'a word run" where
  [arith_ops]: "prim_mod x y = (if y = 0 then Inl DivideByZero else Inr (x mod y))"

text \<open>
  Shifts by a \<open>u32\<close> amount: an amount of the width or more panics, or is reduced modulo the
  width.
\<close>

definition prim_shl :: "build \<Rightarrow> 'a::len word \<Rightarrow> u32 \<Rightarrow> 'a word run" where
  [arith_ops]: "prim_shl b x n =
     (if overflow_checks b \<and> LENGTH('a) \<le> unat n then Inl ShlOverflow
      else Inr (push_bit (unat n mod LENGTH('a)) x))"

definition prim_shr :: "build \<Rightarrow> 'a::len word \<Rightarrow> u32 \<Rightarrow> 'a word run" where
  [arith_ops]: "prim_shr b x n =
     (if overflow_checks b \<and> LENGTH('a) \<le> unat n then Inl ShrOverflow
      else Inr (drop_bit (unat n mod LENGTH('a)) x))"

text \<open>\<open>a && b()\<close>: the right operand runs only if the left one is true.\<close>

definition and_then :: "bool \<Rightarrow> bool run \<Rightarrow> bool run" where
  "and_then a r = (if a then r else Inr False)"

text \<open>The same operators on signed integers.\<close>

definition fits_signed :: "nat \<Rightarrow> int \<Rightarrow> bool" where
  "fits_signed w i \<longleftrightarrow> - (2 ^ (w - 1)) \<le> i \<and> i < 2 ^ (w - 1)"

definition prim_sadd :: "build \<Rightarrow> 'a::len word \<Rightarrow> 'a word \<Rightarrow> 'a word run" where
  [arith_ops]: "prim_sadd b x y =
     (if overflow_checks b \<and> \<not> fits_signed LENGTH('a) (sint x + sint y) then Inl AddOverflow
      else Inr (x + y))"

definition prim_ssub :: "build \<Rightarrow> 'a::len word \<Rightarrow> 'a word \<Rightarrow> 'a word run" where
  [arith_ops]: "prim_ssub b x y =
     (if overflow_checks b \<and> \<not> fits_signed LENGTH('a) (sint x - sint y) then Inl SubOverflow
      else Inr (x - y))"

definition prim_smul :: "build \<Rightarrow> 'a::len word \<Rightarrow> 'a word \<Rightarrow> 'a word run" where
  [arith_ops]: "prim_smul b x y =
     (if overflow_checks b \<and> \<not> fits_signed LENGTH('a) (sint x * sint y) then Inl MulOverflow
      else Inr (x * y))"

definition prim_neg :: "build \<Rightarrow> 'a::len word \<Rightarrow> 'a word run" where
  [arith_ops]: "prim_neg b x =
     (if overflow_checks b \<and> \<not> fits_signed LENGTH('a) (- sint x) then Inl NegOverflow
      else Inr (- x))"

text \<open>Signed division truncates towards zero; \<open>MIN / -1\<close> panics in every build.\<close>

definition prim_sdiv :: "'a::len word \<Rightarrow> 'a word \<Rightarrow> 'a word run" where
  [arith_ops]: "prim_sdiv x y =
     (if y = 0 then Inl DivideByZero
      else if fits_signed LENGTH('a) (sint x sdiv sint y)
           then Inr (word_of_int (sint x sdiv sint y)) else Inl MulOverflow)"

text \<open>Methods of the integer types that never panic.\<close>

definition checked_add :: "'a::len word \<Rightarrow> 'a word \<Rightarrow> 'a word option" where
  [arith_ops]: "checked_add x y =
     (if 2 ^ LENGTH('a) \<le> unat x + unat y then None else Some (x + y))"

definition saturating_sub :: "'a::len word \<Rightarrow> 'a word \<Rightarrow> 'a word" where
  [arith_ops]: "saturating_sub x y = (if unat x < unat y then 0 else x - y)"

definition saturating_mul :: "'a::len word \<Rightarrow> 'a word \<Rightarrow> 'a word" where
  [arith_ops]: "saturating_mul x y = (if 2 ^ LENGTH('a) \<le> unat x * unat y then - 1 else x * y)"

text \<open>
  \<open>div_ceil\<close> of the unsigned types: the quotient, plus one when there is a remainder.
  The library is compiled without overflow checks.
\<close>

definition div_ceil :: "'a::len word \<Rightarrow> 'a word \<Rightarrow> 'a word run" where
  "div_ceil x y =
     bind_run (prim_div x y) (\<lambda>d. bind_run (prim_mod x y) (\<lambda>r.
       Inr (if 0 < r then d + 1 else d)))"

text \<open>\<open>i32::try_from\<close> of a signed integer.\<close>

definition i32_try_from :: "'a::len word \<Rightarrow> (i32, unit) result" where
  "i32_try_from x = (if fits_signed 32 (sint x) then Ok (word_of_int (sint x)) else Err ())"

section \<open>Slices\<close>

text \<open>
  Arrays, vectors and slices are lists. Indexing and slicing panic out of range;
  \<open>copy_from_slice\<close> panics when the lengths differ. Lengths that are only compared,
  copied or passed to \<open>min\<close> are natural numbers.
\<close>

definition slice_to :: "'a list \<Rightarrow> nat \<Rightarrow> 'a list run" where
  "slice_to xs n = (if n \<le> length xs then Inr (take n xs) else Inl SliceOutOfRange)"

definition slice_from :: "'a list \<Rightarrow> nat \<Rightarrow> 'a list run" where
  "slice_from xs n = (if n \<le> length xs then Inr (drop n xs) else Inl SliceOutOfRange)"

definition slice_range :: "'a list \<Rightarrow> nat \<Rightarrow> nat \<Rightarrow> 'a list run" where
  "slice_range xs i j =
     (if i \<le> j \<and> j \<le> length xs then Inr (take (j - i) (drop i xs)) else Inl SliceOutOfRange)"

definition index_run :: "'a list \<Rightarrow> nat \<Rightarrow> 'a run" where
  "index_run xs i = (if i < length xs then Inr (xs ! i) else Inl SliceOutOfRange)"

text \<open>
  The loop \<open>for (d, s) in dst.iter_mut().zip(src) { *d = *s; }\<close>: it stops at the end
  of the shorter side and leaves the rest of \<open>dst\<close> as it was.
\<close>

fun zip_copy :: "'a list \<Rightarrow> 'a list \<Rightarrow> 'a list" where
  "zip_copy (s # ss) (d # ds) = s # zip_copy ss ds"
| "zip_copy ss ds = ds"

lemma zip_copy_eq: "zip_copy ss ds = take (length ds) ss @ drop (length ss) ds"
  by (induction ss ds rule: zip_copy.induct) auto

lemma length_zip_copy [simp]: "length (zip_copy ss ds) = length ds"
  by (induction ss ds rule: zip_copy.induct) auto

lemma take_zip_copy: "n \<le> length ss \<Longrightarrow> n \<le> length ds \<Longrightarrow> take n (zip_copy ss ds) = take n ss"
  by (simp add: zip_copy_eq min_def)

text \<open>Overwriting \<open>dst[i .. i + length src]\<close>, the indices known to be in range.\<close>

definition write_at :: "nat \<Rightarrow> 'a list \<Rightarrow> 'a list \<Rightarrow> 'a list" where
  "write_at i src dst = take i dst @ src @ drop (i + length src) dst"

lemma length_write_at [simp]:
  "i + length src \<le> length dst \<Longrightarrow> length (write_at i src dst) = length dst"
  by (simp add: write_at_def)

lemma nth_write_at:
  "i + length src \<le> length dst \<Longrightarrow> j < length src \<Longrightarrow> write_at i src dst ! (i + j) = src ! j"
  by (simp add: write_at_def nth_append)

section \<open>Little-endian integers\<close>

definition u16_from_le :: "u8 \<Rightarrow> u8 \<Rightarrow> u16" where
  "u16_from_le b0 b1 = word_of_nat (unat b0 + 256 * unat b1)"

definition u32_to_le :: "u32 \<Rightarrow> u8 list" where
  "u32_to_le x = [word_of_nat (unat x), word_of_nat (unat x div 256),
     word_of_nat (unat x div 65536), word_of_nat (unat x div 16777216)]"

definition u32_from_le :: "u8 list \<Rightarrow> u32" where
  "u32_from_le bs = word_of_nat (unat (bs ! 0) + unat (bs ! 1) * 256 +
     unat (bs ! 2) * 65536 + unat (bs ! 3) * 16777216)"

lemma unat_u16_from_le: "unat (u16_from_le b0 b1) = unat b0 + 256 * unat b1"
proof -
  have "unat b0 < 256" "unat b1 < 256"
    using unsigned_less [of b0] unsigned_less [of b1] by simp_all
  then show ?thesis
    by (simp only: u16_from_le_def unat_of_nat) simp
qed

lemma nat_digits_256:
  fixes n :: nat
  assumes "n < 4294967296"
  shows "n mod 256 + n div 256 mod 256 * 256 + n div 65536 mod 256 * 65536 +
      n div 16777216 mod 256 * 16777216 = n"
proof -
  define a where "a = n div 256"
  define b where "b = a div 256"
  define c where "c = b div 256"
  have divs: "n div 65536 = b" "n div 16777216 = c"
    using div_mult2_eq [of n 256 256] div_mult2_eq [of n 65536 256]
    by (simp_all add: a_def b_def c_def)
  have "c < 256"
    using assms unfolding divs(2) [symmetric] by simp
  moreover have "n mod 256 + a * 256 = n" "a mod 256 + b * 256 = a" "b mod 256 + c * 256 = b"
    using mod_mult_div_eq [of n 256] mod_mult_div_eq [of a 256] mod_mult_div_eq [of b 256]
    by (simp_all add: a_def b_def c_def)
  ultimately show ?thesis
    unfolding divs a_def [symmetric] by simp
qed

lemma unat_u8_of_nat: "unat (word_of_nat n :: u8) = n mod 256"
  by (simp only: unat_of_nat) simp

lemma u32_le_roundtrip: "u32_from_le (u32_to_le x) = x"
proof -
  have nths: "unat (u32_to_le x ! 0) = unat x mod 256"
      "unat (u32_to_le x ! 1) = unat x div 256 mod 256"
      "unat (u32_to_le x ! 2) = unat x div 65536 mod 256"
      "unat (u32_to_le x ! 3) = unat x div 16777216 mod 256"
    by (simp_all only: u32_to_le_def nth_Cons_0 nth_Cons_numeral numeral_3_eq_3 numeral_2_eq_2
        One_nat_def nth_Cons_Suc unat_u8_of_nat)
  have "unat x < 4294967296"
    using unsigned_less [of x] by simp
  then have "u32_from_le (u32_to_le x) = word_of_nat (unat x)"
    by (simp only: u32_from_le_def nths nat_digits_256)
  then show ?thesis by simp
qed

section \<open>UTF-8\<close>

text \<open>\<open>str::from_utf8\<close>: the well-formed sequences of one to four bytes.\<close>

definition utf8_cont :: "u8 \<Rightarrow> bool" where
  "utf8_cont b \<longleftrightarrow> 0x80 \<le> b \<and> b \<le> 0xBF"

fun utf8_valid :: "u8 list \<Rightarrow> bool" where
  "utf8_valid [] \<longleftrightarrow> True"
| "utf8_valid (a # bs) \<longleftrightarrow>
     (if a < 0x80 then utf8_valid bs
      else if 0xC2 \<le> a \<and> a \<le> 0xDF then
        (case bs of b # r \<Rightarrow> utf8_cont b \<and> utf8_valid r | _ \<Rightarrow> False)
      else if 0xE0 \<le> a \<and> a \<le> 0xEF then
        (case bs of
           b # c # r \<Rightarrow> utf8_cont b \<and> utf8_cont c \<and> (if a = 0xE0 then 0xA0 \<le> b else True) \<and>
             (if a = 0xED then b \<le> 0x9F else True) \<and> utf8_valid r
         | _ \<Rightarrow> False)
      else if 0xF0 \<le> a \<and> a \<le> 0xF4 then
        (case bs of
           b # c # d # r \<Rightarrow> utf8_cont b \<and> utf8_cont c \<and> utf8_cont d \<and>
             (if a = 0xF0 then 0x90 \<le> b else True) \<and> (if a = 0xF4 then b \<le> 0x8F else True) \<and>
             utf8_valid r
         | _ \<Rightarrow> False)
      else False)"

lemma ascii_utf8: "list_all (\<lambda>b. b < 0x80) bs \<Longrightarrow> utf8_valid bs"
  by (induction bs) simp_all

section \<open>Searching a string\<close>

text \<open>
  \<open>str::contains\<close> on the bytes. On a lossily decoded string the search for an ASCII pattern
  gives the same answer on the bytes: decoding keeps ASCII bytes and puts none in.
\<close>

fun contains :: "u8 list \<Rightarrow> u8 list \<Rightarrow> bool" where
  "contains [] pat \<longleftrightarrow> pat = []"
| "contains (b # bs) pat \<longleftrightarrow> take (length pat) (b # bs) = pat \<or> contains bs pat"

lemma contains_iff: "contains bs pat \<longleftrightarrow> (\<exists>pre post. bs = pre @ pat @ post)"
proof (induction bs)
  case (Cons b bs)
  have "take (length pat) (b # bs) = pat \<longleftrightarrow> (\<exists>post. b # bs = pat @ post)"
    by (metis append_eq_conv_conj append_take_drop_id)
  moreover have "(\<exists>pre post. b # bs = pre @ pat @ post) \<longleftrightarrow>
      (\<exists>post. b # bs = pat @ post) \<or> (\<exists>pre post. bs = pre @ pat @ post)"
    by (auto simp: Cons_eq_append_conv)
  ultimately show ?case using Cons.IH by simp
qed simp

lemma contains_append [simp]: "contains (xs @ pat) pat" "contains (pat @ xs) pat"
  unfolding contains_iff by (auto intro: exI [of _ "[]"])

section \<open>The effects of a main function\<close>

text \<open>
  A \<open>main\<close> function prints lines and ends by returning, by \<open>process::exit\<close> or by a
  panic. A printed line is recorded by the values it interpolates; its fixed text is
  not. Printing cannot fail.
\<close>

datatype val =
    VNat nat | VInt int | VStr string | VBool bool | VUnit
  | VList "val list" | VNone | VSome val | VOk val | VErr val

datatype exit_status = Exited nat | Panicked panic

type_synonym 'a io = "val list list \<times> (exit_status + 'a)"

definition println :: "val list \<Rightarrow> unit io" where
  "println vs = ([vs], Inr ())"

definition exit_process :: "nat \<Rightarrow> unit io" where
  "exit_process n = ([], Inl (Exited n))"

definition assert_that :: "bool \<Rightarrow> unit io" where
  "assert_that c = ([], if c then Inr () else Inl (Panicked AssertFailed))"

definition panic_now :: "unit io" where
  "panic_now = ([], Inl (Panicked ExplicitPanic))"

fun lift_run :: "'a run \<Rightarrow> ('a \<Rightarrow> 'b io) \<Rightarrow> 'b io" where
  "lift_run (Inl p) f = ([], Inl (Panicked p))"
| "lift_run (Inr x) f = f x"

fun block :: "unit io list \<Rightarrow> unit io" where
  "block [] = ([], Inr ())"
| "block ((out, Inl e) # ss) = (out, Inl e)"
| "block ((out, Inr u) # ss) = (let (out', r) = block ss in (out @ out', r))"

fun run_main :: "unit io \<Rightarrow> val list list \<times> exit_status" where
  "run_main (out, Inl e) = (out, e)"
| "run_main (out, Inr u) = (out, Exited 0)"

definition exit_of :: "unit io \<Rightarrow> exit_status" where
  "exit_of m = snd (run_main m)"

lemmas io_defs = println_def exit_process_def assert_that_def panic_now_def exit_of_def

text \<open>The exit status of a block, statement by statement.\<close>

lemma block_nested: "block (block ss # ss') = block (ss @ ss')"
proof (induction ss rule: block.induct)
  case (3 out u ss)
  then show ?case by (cases "block ss"; cases "snd (block ss)") (auto split: prod.splits)
qed (auto split: prod.splits)

lemma block_if: "block ((if c then m else m') # ss) = (if c then block (m # ss) else block (m' # ss))"
  by simp

lemma exit_of_block_Inr: "exit_of (block ((out, Inr u) # ss)) = exit_of (block ss)"
proof -
  obtain out' r where "block ss = (out', r)" by fastforce
  then show ?thesis by (cases r) (simp_all add: exit_of_def)
qed

lemma exit_of_lift_run_if:
  "exit_of (lift_run (if c then r else r') f) = (if c then exit_of (lift_run r f) else exit_of (lift_run r' f))"
  by simp

lemma exit_of_simps:
  "exit_of (println vs) = Exited 0"
  "exit_of (exit_process n) = Exited n"
  "exit_of panic_now = Panicked ExplicitPanic"
  "exit_of (assert_that c) = (if c then Exited 0 else Panicked AssertFailed)"
  "exit_of (lift_run (Inl p) f) = Panicked p"
  "exit_of (block []) = Exited 0"
  "exit_of (out, Inr u) = Exited 0"
  "exit_of (out, Inl e) = e"
  "exit_of (block (println vs # ss)) = exit_of (block ss)"
  "exit_of (block (exit_process n # ss)) = Exited n"
  "exit_of (block (panic_now # ss)) = Panicked ExplicitPanic"
  "exit_of (block (assert_that c # ss)) = (if c then exit_of (block ss) else Panicked AssertFailed)"
  by (simp_all add: println_def exit_process_def assert_that_def panic_now_def
      exit_of_block_Inr del: block.simps(3))
     (simp_all add: exit_of_def)

lemmas exit_simps = block_nested block_if exit_of_simps exit_of_lift_run_if

section \<open>Words as numbers\<close>

named_theorems word_facts

lemma unat_word_less: "unat (x :: 'a::len word) < 2 ^ LENGTH('a)"
  by (rule unsigned_less)

lemma unat_add_exact:
  fixes x y :: "'a::len word"
  assumes "unat x + unat y < 2 ^ LENGTH('a)"
  shows "unat (x + y) = unat x + unat y"
  using assms by (simp add: unat_word_ariths)

lemma unat_mult_exact:
  fixes x y :: "'a::len word"
  assumes "unat x * unat y < 2 ^ LENGTH('a)"
  shows "unat (x * y) = unat x * unat y"
  using assms by (simp add: unat_word_ariths)

lemma unat_sub_exact:
  fixes x y :: "'a::len word"
  assumes "unat y \<le> unat x"
  shows "unat (x - y) = unat x - unat y"
  using assms by (simp add: unat_sub word_le_nat_alt)

lemma unat_sub_wrap:
  fixes x y :: "'a::len word"
  assumes "unat x < unat y"
  shows "unat (x - y) = 2 ^ LENGTH('a) + unat x - unat y"
proof -
  have "unat x = unat ((x - y) + y)" by simp
  also have "\<dots> = (if unat (x - y) + unat y < 2 ^ LENGTH('a) then unat (x - y) + unat y
      else unat (x - y) + unat y - 2 ^ LENGTH('a))"
    by (rule unat_plus_if')
  finally show ?thesis
    using assms unat_word_less [of y] by (auto split: if_splits)
qed

text \<open>An increment guarded by a comparison does not wrap.\<close>

lemma counter_step:
  fixes i n :: "'a::len word"
  assumes "i < n"
  shows "unat (i + 1) = Suc (unat i)" and "unat i < unat n"
proof -
  from assms show lt: "unat i < unat n" by (simp add: word_less_nat_alt)
  then have "unat i + 1 < 2 ^ LENGTH('a)"
    using unat_word_less [of n] by linarith
  then show "unat (i + 1) = Suc (unat i)"
    using unat_add_exact [of i 1] by simp
qed

lemma max_unat: "unat (max x y :: 'a::len word) = max (unat x) (unat y)"
  by (simp add: max_def word_le_nat_alt)

lemma prim_sub_exact: "unat y \<le> unat x \<Longrightarrow> prim_sub b x y = Inr (x - y)"
  by (simp add: prim_sub_def)

text \<open>Halving and parity.\<close>

lemma unat_div_2: "unat (x div 2 :: 'a::len word) = unat x div 2" if "1 < LENGTH('a)"
proof -
  have "(2 :: nat) ^ 1 < 2 ^ LENGTH('a)" using that by (intro power_strict_increasing) simp_all
  then have "unat (2 :: 'a word) = 2" by (simp add: unsigned_numeral take_bit_eq_mod)
  then show ?thesis by (simp add: unat_div_distrib)
qed

lemma word_mod_2:
  "(x :: 'a::len word) mod 2 = 1 \<longleftrightarrow> odd (unat x)" "x mod 2 = 0 \<longleftrightarrow> even (unat x)" if "1 < LENGTH('a)"
proof -
  have "(2 :: nat) ^ 1 < 2 ^ LENGTH('a)" using that by (intro power_strict_increasing) simp_all
  then have "unat (2 :: 'a word) = 2" by (simp add: unsigned_numeral take_bit_eq_mod)
  then show "x mod 2 = 1 \<longleftrightarrow> odd (unat x)" "x mod 2 = 0 \<longleftrightarrow> even (unat x)"
    by (simp_all add: word_unat_eq_iff unat_mod_distrib odd_iff_mod_2_eq_one even_iff_mod_2_eq_zero)
qed

text \<open>Signed arithmetic that stays in range is exact.\<close>

lemma sint_bounds:
  fixes x :: "'a::len word"
  shows "- (2 ^ (LENGTH('a) - 1)) \<le> sint x" and "sint x < 2 ^ (LENGTH('a) - 1)"
  using sint_range_size [of x] by (simp_all add: word_size)

lemma fits_signed_sint [simp]: "fits_signed LENGTH('a) (sint (x :: 'a::len word))"
  using sint_bounds [of x] by (simp add: fits_signed_def)

lemma signed_take_bit_fits: "fits_signed w i \<Longrightarrow> signed_take_bit (w - Suc 0) i = i"
  by (simp add: fits_signed_def signed_take_bit_int_eq_self)

lemma sint_exact:
  fixes x y :: "'a::len word"
  shows "fits_signed LENGTH('a) (sint x + sint y) \<Longrightarrow> sint (x + y) = sint x + sint y"
    and "fits_signed LENGTH('a) (sint x - sint y) \<Longrightarrow> sint (x - y) = sint x - sint y"
    and "fits_signed LENGTH('a) (sint x * sint y) \<Longrightarrow> sint (x * y) = sint x * sint y"
    and "fits_signed LENGTH('a) (- sint x) \<Longrightarrow> sint (- x) = - sint x"
  by (simp_all add: sint_word_ariths signed_take_bit_fits)

lemma sint_word_of_int_fits:
  "fits_signed LENGTH('a) i \<Longrightarrow> sint (word_of_int i :: 'a::len word) = i"
  by (simp add: signed_of_int signed_take_bit_fits)

lemma prim_signed_exact:
  fixes x y :: "'a::len word"
  shows "fits_signed LENGTH('a) (sint x + sint y) \<Longrightarrow> prim_sadd b x y = Inr (x + y)"
    and "fits_signed LENGTH('a) (sint x - sint y) \<Longrightarrow> prim_ssub b x y = Inr (x - y)"
    and "fits_signed LENGTH('a) (sint x * sint y) \<Longrightarrow> prim_smul b x y = Inr (x * y)"
    and "fits_signed LENGTH('a) (- sint x) \<Longrightarrow> prim_neg b x = Inr (- x)"
  by (simp_all add: arith_ops)

lemma sint_scast_up:
  fixes x :: "'a::len word"
  assumes "LENGTH('a) \<le> LENGTH('b)"
  shows "sint (scast x :: 'b::len word) = sint x"
proof -
  have "(2 :: int) ^ (LENGTH('a) - 1) \<le> 2 ^ (LENGTH('b) - 1)"
    by (rule power_increasing) (use assms in auto)
  then have "fits_signed LENGTH('b) (sint x)"
    using sint_bounds [of x] unfolding fits_signed_def by linarith
  then show ?thesis by (simp add: signed_scast_eq signed_take_bit_fits)
qed

lemma unat_ucast_up:
  fixes x :: "'a::len word"
  assumes "LENGTH('a) \<le> LENGTH('b)"
  shows "unat (ucast x :: 'b::len word) = unat x"
proof -
  have "unat x < 2 ^ LENGTH('a)" by (rule unsigned_less)
  also have "(2 :: nat) ^ LENGTH('a) \<le> 2 ^ LENGTH('b)"
    using assms by (rule power_increasing) simp
  finally show ?thesis
    by (simp add: unsigned_ucast_eq take_bit_nat_eq_self)
qed

lemma unat_max_word: "unat (- 1 :: 'a::len word) = 2 ^ LENGTH('a) - 1"
  by (simp add: unsigned_minus_1_eq_mask mask_eq_exp_minus_1)

lemma prim_neg_cases:
  fixes x :: "'a::len word"
  shows "prim_neg b x =
    (if overflow_checks b \<and> sint x = - (2 ^ (LENGTH('a) - 1)) then Inl NegOverflow else Inr (- x))"
    and "sint (- x) = (if sint x = - (2 ^ (LENGTH('a) - 1)) then sint x else - sint x)"
proof -
  have f: "fits_signed LENGTH('a) (- sint x) \<longleftrightarrow> sint x \<noteq> - (2 ^ (LENGTH('a) - 1))"
    using sint_bounds [of x] by (auto simp: fits_signed_def)
  then show "prim_neg b x = (if overflow_checks b \<and> sint x = - (2 ^ (LENGTH('a) - 1)) then Inl NegOverflow else Inr (- x))"
    by (simp add: prim_neg_def)
  show "sint (- x) = (if sint x = - (2 ^ (LENGTH('a) - 1)) then sint x else - sint x)"
  proof (cases "sint x = - (2 ^ (LENGTH('a) - 1))")
    case True
    have "signed_take_bit n (2 ^ n :: int) = - (2 ^ n)" for n
      by (simp add: signed_take_bit_eq_take_bit_minus take_bit_int_eq_self bit_simps)
    then show ?thesis using True by (simp add: sint_word_minus)
  next
    case False
    then show ?thesis using f sint_exact(4) [of x] by simp
  qed
qed

text \<open>
  Unsigned operators on values known as natural numbers: without overflow they return a
  word of the exact value, in every build. The rules in elimination form name that word.
\<close>

lemma prim_nat:
  fixes x y :: "'a::len word"
  shows "unat x + unat y < 2 ^ LENGTH('a) \<Longrightarrow> prim_add b x y = Inr (x + y) \<and> unat (x + y) = unat x + unat y"
    and "unat y \<le> unat x \<Longrightarrow> prim_sub b x y = Inr (x - y) \<and> unat (x - y) = unat x - unat y"
    and "unat x * unat y < 2 ^ LENGTH('a) \<Longrightarrow> prim_mul b x y = Inr (x * y) \<and> unat (x * y) = unat x * unat y"
  by (simp_all add: prim_add_def prim_sub_def prim_mul_def unat_add_exact unat_sub_exact unat_mult_exact)

lemma prim_natE:
  fixes x y :: "'a::len word"
  assumes "unat x = m" "unat y = n"
  shows "m + n < 2 ^ LENGTH('a) \<Longrightarrow> (\<And>z. prim_add b x y = Inr z \<Longrightarrow> unat z = m + n \<Longrightarrow> P) \<Longrightarrow> P"
    and "n \<le> m \<Longrightarrow> (\<And>z. prim_sub b x y = Inr z \<Longrightarrow> unat z = m - n \<Longrightarrow> P) \<Longrightarrow> P"
    and "m * n < 2 ^ LENGTH('a) \<Longrightarrow> (\<And>z. prim_mul b x y = Inr z \<Longrightarrow> unat z = m * n \<Longrightarrow> P) \<Longrightarrow> P"
proof -
  show "m + n < 2 ^ LENGTH('a) \<Longrightarrow> (\<And>z. prim_add b x y = Inr z \<Longrightarrow> unat z = m + n \<Longrightarrow> P) \<Longrightarrow> P"
    using prim_nat(1) [of x y b] assms by simp
  show "n \<le> m \<Longrightarrow> (\<And>z. prim_sub b x y = Inr z \<Longrightarrow> unat z = m - n \<Longrightarrow> P) \<Longrightarrow> P"
    using prim_nat(2) [of y x b] assms by simp
  show "m * n < 2 ^ LENGTH('a) \<Longrightarrow> (\<And>z. prim_mul b x y = Inr z \<Longrightarrow> unat z = m * n \<Longrightarrow> P) \<Longrightarrow> P"
    using prim_nat(3) [of x y b] assms by simp
qed

text \<open>Rounding a quotient up.\<close>

lemma ceil_nat: "0 < y \<Longrightarrow> (x + y - 1) div y = x div y + (if x mod y = 0 then 0 else 1 :: nat)"
proof -
  assume y: "0 < y"
  show ?thesis
  proof (cases "x mod y = 0")
    case True
    then obtain k where "x = y * k" by (auto elim: dvdE)
    then have "x + y - 1 = (y - 1) + k * y" using y by (simp add: algebra_simps)
    moreover obtain z where "y = Suc z" using y gr0_implies_Suc by blast
    then have "((y - 1) + k * y) div y = k" by (simp only: diff_Suc_1 div_mult_self1) simp
    ultimately have "(x + y - 1) div y = k" by (simp only:)
    then show ?thesis using y \<open>x = y * k\<close> by simp
  next
    case False
    have "x + y - 1 = (x mod y - 1) + (x div y + 1) * y"
      using False y div_mult_mod_eq [of x y] by (simp only: add_mult_distrib)
    moreover have "x mod y - 1 < y" using y by (meson less_imp_diff_less mod_less_divisor)
    then have "((x mod y - 1) + (x div y + 1) * y) div y = x div y + 1"
      using y by (subst div_mult_self1) simp_all
    ultimately have "(x + y - 1) div y = x div y + 1" by (simp only:)
    then show ?thesis using False by simp
  qed
qed

text \<open>Clearing the low bits rounds down to a multiple of a power of two.\<close>

lemma and_not_mask: "x AND NOT (mask n) = push_bit n (drop_bit n (x :: 'a::len word))"
  by (rule bit_word_eqI) (auto simp: bit_simps)

lemma unat_and_not_mask:
  fixes x :: "'a::len word"
  shows "unat (x AND NOT (mask n)) = unat x div 2 ^ n * 2 ^ n"
proof -
  have "unat x div 2 ^ n * 2 ^ n \<le> unat x" by simp
  also have "\<dots> < 2 ^ LENGTH('a)" by (rule unat_word_less)
  finally have "take_bit LENGTH('a) (push_bit n (drop_bit n (unat x))) = unat x div 2 ^ n * 2 ^ n"
    by (simp add: take_bit_nat_eq_self push_bit_eq_mult drop_bit_eq_div)
  then show ?thesis
    by (simp only: and_not_mask unsigned_push_bit_eq unat_drop_bit_eq)
qed

lemma unat_and_mask: "unat (x AND mask n) = unat (x :: 'a::len word) mod 2 ^ n"
  by (simp add: unsigned_take_bit_eq flip: take_bit_eq_mask take_bit_eq_mod)

end
