(* ===== verification/Overflow.thy ===== *)
theory Overflow
  imports Prelude
begin

text \<open>
  Integer arithmetic of \<open>rust-stdlib/pocs\<close>: stack-size rounding and mapping length
  (043, 044), the exponent and mantissa accumulators of the hexadecimal float parser
  (045, 046), duration division (047, 048), the \<open>UNICODE_STRING\<close> byte lengths (062), the
  cached-power table index (099), negation of error codes (105, 106) and the
  double-width multiply-add (182). Every operator that can overflow is written with the
  panicking primitive of the prelude, so both build modes are covered; every \<open>main\<close>
  is modelled with its assertions.
\<close>

section \<open>Thread stack sizes (043, 044)\<close>

definition MIN_STACK_SIZE :: usize where
  "MIN_STACK_SIZE = 4096"

definition buggy_round :: "usize \<Rightarrow> usize" where
  "buggy_round stack =
     (let stack_size = max stack MIN_STACK_SIZE
      in if stack_size AND 4095 \<noteq> 0 then (stack_size + 4095) AND NOT 4095 else stack_size)"

definition buggy_round_checked_arith :: "build \<Rightarrow> usize \<Rightarrow> usize run" where
  "buggy_round_checked_arith b stack =
     (let stack_size = max stack MIN_STACK_SIZE
      in if stack_size AND 4095 \<noteq> 0
         then bind_run (prim_add b stack_size 4095) (\<lambda>s. Inr (s AND NOT 4095))
         else Inr stack_size)"

definition main_043 :: "build \<Rightarrow> unit io" where
  "main_043 b =
     (let bad = - 1 - 1;
          wrapped = buggy_round bad;
          panicked = isl (buggy_round_checked_arith b bad)
      in block
        [println [VNat (unat bad), VNat (unat wrapped)],
         assert_that (wrapped = 0),
         println [],
         if debug_assertions b then block [assert_that panicked, println []]
         else println [VBool panicked]])"

definition GUARD_PAGE_SIZE :: usize where
  "GUARD_PAGE_SIZE = 4096"

definition buggy_mapping_length :: "usize \<Rightarrow> usize" where
  "buggy_mapping_length stack_size = GUARD_PAGE_SIZE + stack_size + GUARD_PAGE_SIZE"

definition main_044 :: "unit io" where
  "main_044 =
     (let stack_size = (- 1) AND NOT 4095;
          mapped = buggy_mapping_length stack_size;
          stack_end = GUARD_PAGE_SIZE + stack_size;
          lo = GUARD_PAGE_SIZE;
          hi = stack_end
      in block
        [assert_that (stack_size AND 4095 = 0),
         println [VNat (unat stack_size), VNat (unat mapped)],
         assert_that (mapped = 0x1000),
         println [VNat (unat stack_end)],
         assert_that (stack_end = 0),
         println [VNat (unat lo), VNat (unat hi)],
         assert_that (hi < lo),
         println []])"

text \<open>
  The page arithmetic on words, and the size the rounding is meant to compute: the next
  multiple of 4096.
\<close>

lemma mask_4095: "(4095 :: usize) = mask 12"
  by (simp add: mask_eq_exp_minus_1)

lemma page_aligned_iff: "(s :: usize) AND 4095 = 0 \<longleftrightarrow> 4096 dvd unat s"
  by (simp add: mask_4095 flip: and_mask_dvd_nat)

lemma unat_round_down: "unat ((s :: usize) AND NOT 4095) = unat s div 4096 * 4096"
  by (simp only: mask_4095 unat_and_not_mask) simp

definition page_ceil :: "nat \<Rightarrow> nat" where
  "page_ceil n = (n + 4095) div 4096 * 4096"

lemma page_ceil_aligned: "4096 dvd n \<Longrightarrow> page_ceil n = n"
  by (auto simp: page_ceil_def)

lemma page_ceil_bounds: "n \<le> page_ceil n" "page_ceil n < n + 4096" "4096 dvd page_ceil n"
proof -
  have "page_ceil n + (n + 4095) mod 4096 = n + 4095"
    by (simp add: page_ceil_def)
  moreover have "(n + 4095) mod 4096 < 4096" by simp
  ultimately show "n \<le> page_ceil n" "page_ceil n < n + 4096" by linarith+
qed (simp add: page_ceil_def)

text \<open>The rounding of \<open>Thread::new\<close>, in both build modes: a requested size up to
  \<open>usize::MAX - 4095\<close> becomes the next page multiple (at least one page); any larger one
  panics with overflow checks and silently becomes a stack of zero bytes without.\<close>

theorem buggy_round_checked_arith_spec:
  "buggy_round_checked_arith b stack =
     (if 2 ^ 64 - 4096 < unat stack
      then (if overflow_checks b then Inl AddOverflow else Inr 0)
      else Inr (word_of_nat (page_ceil (max 4096 (unat stack)))))"
proof -
  define s where "s = max stack MIN_STACK_SIZE"
  have us: "unat s = max 4096 (unat stack)"
    by (simp add: s_def max_unat MIN_STACK_SIZE_def max.commute)
  have lt: "unat stack < 2 ^ 64" using unsigned_less [of stack] by simp
  show ?thesis
  proof (cases "2 ^ 64 - 4096 < unat stack")
    case True
    then have us': "unat s = unat stack" using us by simp
    have nd: "\<not> 4096 dvd unat s" using True lt us' by (auto elim!: dvdE)
    have "unat (s + 4095) = unat s + 4095 - 2 ^ 64"
      using True us' unat_plus_if' [of s 4095] by simp
    then have "unat ((s + 4095) AND NOT 4095) = 0"
      using lt us' by (simp only: unat_round_down) simp
    then have "(s + 4095) AND NOT 4095 = 0" by (simp only: unat_eq_0)
    then show ?thesis
      using True nd us' unfolding buggy_round_checked_arith_def s_def [symmetric]
      by (simp add: page_aligned_iff prim_add_def)
  next
    case False
    then have le: "unat s \<le> 2 ^ 64 - 4096" using us by simp
    show ?thesis
    proof (cases "4096 dvd unat s")
      case True
      then have "s = word_of_nat (page_ceil (unat s))" by (simp add: page_ceil_aligned)
      then show ?thesis
        using False True us unfolding buggy_round_checked_arith_def s_def [symmetric]
        by (simp add: page_aligned_iff)
    next
      case nd: False
      have lt2: "unat s + unat (4095 :: usize) < 2 ^ LENGTH(64)"
        using le nd by (cases "unat s = 2 ^ 64 - 4096") simp_all
      then have "unat (s + 4095) = unat s + 4095"
        using unat_add_exact [of s 4095] by simp
      then have "unat ((s + 4095) AND NOT 4095) = page_ceil (unat s)"
        by (simp only: unat_round_down page_ceil_def)
      then have "(s + 4095) AND NOT 4095 = word_of_nat (page_ceil (unat s))"
        by (metis of_nat_unat ucast_id)
      moreover have "prim_add b s 4095 = Inr (s + 4095)"
        using lt2 by (simp only: prim_add_def) simp
      ultimately show ?thesis
        using False nd us unfolding buggy_round_checked_arith_def s_def [symmetric]
        by (simp add: page_aligned_iff)
    qed
  qed
qed

lemma buggy_round_eq:
  "\<not> overflow_checks b \<Longrightarrow> buggy_round_checked_arith b stack = Inr (buggy_round stack)"
  by (simp add: buggy_round_checked_arith_def buggy_round_def Let_def prim_add_def)

lemma buggy_mapping_length_wraps:
  "unat (buggy_mapping_length s) =
    (if unat s < 2 ^ 64 - 8192 then unat s + 8192 else unat s + 8192 - 2 ^ 64)"
proof -
  have "unat s < 2 ^ 64" using unsigned_less [of s] by simp
  have "buggy_mapping_length s = s + 8192"
    by (simp add: buggy_mapping_length_def GUARD_PAGE_SIZE_def)
  then show ?thesis
    using unat_plus_if' [of s 8192] \<open>unat s < 2 ^ 64\<close> by simp
qed

section \<open>The hexadecimal float parser (045, 046)\<close>

text \<open>
  \<open>(b - b'0') as u32\<close> is a \<open>u8\<close> subtraction: it panics on a byte below \<open>'0'\<close> when
  overflow checks are on and wraps otherwise.
\<close>

fun buggy_accumulate_loop :: "build \<Rightarrow> u32 \<Rightarrow> u8 list \<Rightarrow> u32 run" where
  "buggy_accumulate_loop b pexp [] = Inr pexp"
| "buggy_accumulate_loop b pexp (c # cs) =
     bind_run (prim_sub b c 48) (\<lambda>d.
       let digit = ucast d; pexp = saturating_mul pexp 10; pexp = pexp + digit
       in buggy_accumulate_loop b pexp cs)"

definition buggy_accumulate :: "build \<Rightarrow> u8 list \<Rightarrow> u32 run" where
  "buggy_accumulate b exponent_digits = buggy_accumulate_loop b 0 exponent_digits"

fun buggy_accumulate_checked_arith_loop :: "build \<Rightarrow> u32 \<Rightarrow> u8 list \<Rightarrow> u32 run" where
  "buggy_accumulate_checked_arith_loop b pexp [] = Inr pexp"
| "buggy_accumulate_checked_arith_loop b pexp (c # cs) =
     bind_run (prim_sub b c 48) (\<lambda>d.
       let digit = ucast d; pexp = saturating_mul pexp 10
       in bind_run (prim_add b pexp digit) (\<lambda>pexp.
            buggy_accumulate_checked_arith_loop b pexp cs))"

definition buggy_accumulate_checked_arith :: "build \<Rightarrow> u8 list \<Rightarrow> u32 run" where
  "buggy_accumulate_checked_arith b exponent_digits =
     buggy_accumulate_checked_arith_loop b 0 exponent_digits"

text \<open>The bytes of \<open>b"4294967296"\<close>.\<close>

definition digits_045 :: "u8 list" where
  "digits_045 = [52, 50, 57, 52, 57, 54, 55, 50, 57, 54]"

definition main_045 :: "build \<Rightarrow> unit io" where
  "main_045 b =
     lift_run (buggy_accumulate b digits_045) (\<lambda>result.
       let panicked = isl (buggy_accumulate_checked_arith b digits_045)
       in block
         [println [VList (map (VNat \<circ> unat) digits_045), VNat (unat result)],
          assert_that (result < 4294967290),
          println [VNat (unat result)],
          if debug_assertions b then block [assert_that panicked, println []]
          else println [VBool panicked]])"

text \<open>The loop counter cannot overflow: it is below \<open>extra\<close> when it is incremented.\<close>

function buggy_advance_exp_loop :: "i32 \<Rightarrow> u64 \<Rightarrow> u64 \<Rightarrow> i32" where
  "buggy_advance_exp_loop e i extra =
     (if i < extra then buggy_advance_exp_loop (e + 4) (i + 1) extra else e)"
  by pat_completeness auto

termination buggy_advance_exp_loop
  by (relation "measure (\<lambda>(e, i, extra). unat extra - unat i)") (auto simp: counter_step intro!: diff_less_mono2)

definition buggy_advance_exp :: "i32 \<Rightarrow> u64 \<Rightarrow> i32" where
  "buggy_advance_exp start extra_significant_digits =
     buggy_advance_exp_loop start 0 extra_significant_digits"

function buggy_advance_exp_checked_arith_loop :: "build \<Rightarrow> i32 \<Rightarrow> u64 \<Rightarrow> u64 \<Rightarrow> i32 run" where
  "buggy_advance_exp_checked_arith_loop b e i extra =
     (if i < extra
      then bind_run (prim_sadd b e 4) (\<lambda>e.
             buggy_advance_exp_checked_arith_loop b e (i + 1) extra)
      else Inr e)"
  by pat_completeness auto

termination buggy_advance_exp_checked_arith_loop
  by (relation "measure (\<lambda>(b, e, i, extra). unat extra - unat i)") (auto simp: counter_step intro!: diff_less_mono2)

definition buggy_advance_exp_checked_arith :: "build \<Rightarrow> i32 \<Rightarrow> u64 \<Rightarrow> i32 run" where
  "buggy_advance_exp_checked_arith b start extra =
     buggy_advance_exp_checked_arith_loop b start 0 extra"

definition main_046 :: "build \<Rightarrow> unit io" where
  "main_046 b =
     (let start = 2147483644; extra = 1;
          e = buggy_advance_exp start extra;
          panicked = isl (buggy_advance_exp_checked_arith b start extra)
      in block
        [println [VInt (sint start), VNat (unat extra), VInt (sint e)],
         assert_that (e = - (2 ^ 31)),
         println [],
         if debug_assertions b then block [assert_that panicked, println []]
         else println [VBool panicked]])"

declare buggy_advance_exp_loop.simps [simp del]
  buggy_advance_exp_checked_arith_loop.simps [simp del]

text \<open>
  The specification of the exponent accumulator is the number its digits denote; the
  accumulator starts from any value so that the loop can be followed.
\<close>

definition is_digit :: "u8 \<Rightarrow> bool" where
  "is_digit c \<longleftrightarrow> 48 \<le> unat c \<and> unat c \<le> 57"

definition decimal_from :: "nat \<Rightarrow> u8 list \<Rightarrow> nat" where
  "decimal_from n ds = foldl (\<lambda>n c. 10 * n + (unat c - 48)) n ds"

lemma decimal_from_simps [simp]:
  "decimal_from n [] = n"
  "decimal_from n (c # cs) = decimal_from (10 * n + (unat c - 48)) cs"
  by (simp_all add: decimal_from_def)

lemma decimal_from_ge: "n \<le> decimal_from n ds"
proof (induction ds arbitrary: n)
  case (Cons c cs)
  have "n \<le> 10 * n + (unat c - 48)" by simp
  also have "\<dots> \<le> decimal_from (10 * n + (unat c - 48)) cs" by (rule Cons.IH)
  finally show ?case by simp
qed simp

lemma digit_sub:
  assumes "is_digit c"
  shows "prim_sub b c 48 = Inr (c - 48)" "unat (ucast (c - 48) :: u32) = unat c - 48"
proof -
  from assms have "unat (48 :: u8) \<le> unat c" by (simp add: is_digit_def)
  then show "prim_sub b c 48 = Inr (c - 48)" "unat (ucast (c - 48) :: u32) = unat c - 48"
    using unat_sub_exact [of 48 c] by (auto simp: prim_sub_def unat_ucast_up)
qed

lemma sat_mul_10:
  "unat p = n \<Longrightarrow> unat (saturating_mul (p :: u32) 10) = min (10 * n) 4294967295"
  using unat_mult_exact [of p 10] by (auto simp: saturating_mul_def min_def mult.commute unat_max_word)

lemma buggy_accumulate_loop_exact:
  assumes "list_all is_digit ds" "decimal_from n ds < 4294967296" "unat p = n"
  shows "buggy_accumulate_loop b p ds = Inr (word_of_nat (decimal_from n ds)) \<and>
      buggy_accumulate_checked_arith_loop b p ds = Inr (word_of_nat (decimal_from n ds))"
  using assms
proof (induction ds arbitrary: p n)
  case Nil
  then show ?case by auto
next
  case (Cons c cs)
  let ?n = "10 * n + (unat c - 48)"
  let ?d = "ucast (c - 48) :: u32"
  let ?p = "saturating_mul p 10 + ?d"
  from Cons.prems have c: "is_digit c" and n: "?n < 4294967296"
    using decimal_from_ge [of ?n cs] by simp_all
  then have "unat (saturating_mul p 10) = 10 * n"
    using sat_mul_10 [OF Cons.prems(3)] by simp
  then have sum: "unat (saturating_mul p 10) + unat ?d = ?n"
    by (simp add: digit_sub c)
  then have "unat ?p = ?n" "prim_add b (saturating_mul p 10) ?d = Inr ?p"
    using n unat_add_exact [of "saturating_mul p 10" ?d] by (simp_all add: prim_add_def)
  then show ?case
    using Cons.IH [of ?n ?p] Cons.prems by (simp add: digit_sub c Let_def)
qed

lemma buggy_accumulate_loop_saturates:
  assumes "list_all is_digit ds" "overflow_checks b" "unat p = min n 4294967295"
    "buggy_accumulate_checked_arith_loop b p ds = Inr v"
  shows "unat v = min (decimal_from n ds) 4294967295"
  using assms
proof (induction ds arbitrary: p n)
  case Nil
  then show ?case by simp
next
  case (Cons c cs)
  let ?n = "10 * n + (unat c - 48)"
  let ?d = "ucast (c - 48) :: u32"
  let ?p = "saturating_mul p 10 + ?d"
  from Cons.prems have c: "is_digit c" by simp
  have d: "unat ?d = unat c - 48" by (simp add: digit_sub c)
  have m: "unat (saturating_mul p 10) = min (10 * n) 4294967295"
    using sat_mul_10 [OF Cons.prems(3)] by simp
  from Cons.prems(4) c have no: "unat (saturating_mul p 10) + unat ?d < 4294967296"
    and rest: "buggy_accumulate_checked_arith_loop b ?p cs = Inr v"
    using Cons.prems(2) by (auto simp: digit_sub Let_def prim_add_def bind_run_Inr_iff split: if_splits)
  have "unat ?p = min ?n 4294967295"
    using no unat_add_exact [of "saturating_mul p 10" ?d] m d
    by (simp add: min_def split: if_splits)
  from Cons.IH [OF _ Cons.prems(2) this rest] Cons.prems(1) show ?case by simp
qed

text \<open>While the digits denote a number that fits in 32 bits, both accumulators return
  exactly that number, in every build: no digit sequence in range panics or wraps.\<close>

theorem buggy_accumulate_exact:
  assumes "list_all is_digit ds" and "decimal_from 0 ds < 4294967296"
  shows "buggy_accumulate b ds = Inr (word_of_nat (decimal_from 0 ds)) \<and>
      buggy_accumulate_checked_arith b ds = Inr (word_of_nat (decimal_from 0 ds))"
  unfolding buggy_accumulate_def buggy_accumulate_checked_arith_def
  by (rule buggy_accumulate_loop_exact) (simp_all add: assms)

theorem buggy_accumulate_exact_witness:
  "buggy_accumulate checked_build [52, 50, 57] = Inr 429 \<and> buggy_accumulate_checked_arith checked_build [52, 50, 57] = Inr 429"
  using buggy_accumulate_exact [of "[52, 50, 57]" checked_build] by (simp add: is_digit_def)

text \<open>With overflow checks the accumulator never returns a wrong exponent: whenever
  it returns at all, the value is the denoted number saturated at \<open>u32::MAX\<close>.\<close>

theorem buggy_accumulate_checked_saturates:
  assumes "list_all is_digit ds" and "overflow_checks b"
    and "buggy_accumulate_checked_arith b ds = Inr v"
  shows "unat v = min (decimal_from 0 ds) 4294967295"
  by (rule buggy_accumulate_loop_saturates [OF assms(1,2) _ assms(3) [unfolded
        buggy_accumulate_checked_arith_def]]) simp

theorem buggy_accumulate_checked_saturates_witness:
  "unat (- 1 :: u32) = min (decimal_from 0 [52, 50, 57, 52, 57, 54, 55, 50, 57, 53, 48]) 4294967295"
  by (rule buggy_accumulate_checked_saturates
        [where b = "\<lparr>overflow_checks = True, debug_assertions = True\<rparr>"])
     (simp_all add: is_digit_def buggy_accumulate_checked_arith_def arith_ops Let_def
       unat_max_word)

lemma buggy_advance_exp_loop_eq: "buggy_advance_exp_loop e i extra = e + 4 * word_of_nat (unat extra - unat i)"
proof (induction e i extra rule: buggy_advance_exp_loop.induct)
  case (1 e i extra)
  show ?case
  proof (cases "i < extra")
    case True
    then have "unat extra - unat i = Suc (unat extra - unat (i + 1))"
      by (simp add: counter_step Suc_diff_Suc)
    with 1 True show ?thesis
      by (subst buggy_advance_exp_loop.simps) (simp add: algebra_simps)
  next
    case False
    then show ?thesis
      by (subst buggy_advance_exp_loop.simps) (simp add: word_less_nat_alt)
  qed
qed

lemma buggy_advance_exp_checked_arith_loop_eq: "buggy_advance_exp_checked_arith_loop b e i extra =
   (if overflow_checks b \<and> 2 ^ 31 \<le> sint e + 4 * int (unat extra - unat i) then Inl AddOverflow
    else Inr (e + 4 * word_of_nat (unat extra - unat i)))"
proof (induction b e i extra rule: buggy_advance_exp_checked_arith_loop.induct)
  case (1 b e i extra)
  have e: "- (2 ^ 31) \<le> sint e" "sint e < 2 ^ 31" using sint_bounds [of e] by simp_all
  show ?case
  proof (cases "i < extra")
    case True
    let ?k = "unat extra - unat (i + 1)"
    from True have k: "unat extra - unat i = Suc ?k"
      by (simp add: counter_step Suc_diff_Suc)
    show ?thesis
    proof (cases "sint e + 4 < 2 ^ 31")
      case fits: True
      then have f: "fits_signed LENGTH(32) (sint e + sint (4 :: i32))"
        using e by (simp add: fits_signed_def)
      have "sint (e + 4) = sint e + 4" using sint_exact(1) [OF f] by simp
      moreover have "prim_sadd b e 4 = Inr (e + 4)" using prim_signed_exact(1) [OF f] by simp
      ultimately show ?thesis
        using 1 True k
        by (subst buggy_advance_exp_checked_arith_loop.simps) (simp add: algebra_simps)
    next
      case nf: False
      have "prim_sadd b e 4 = (if overflow_checks b then Inl AddOverflow else Inr (e + 4))"
        using nf by (simp add: prim_sadd_def fits_signed_def)
      with 1 True k nf show ?thesis
        by (subst buggy_advance_exp_checked_arith_loop.simps) (simp add: algebra_simps)
    qed
  next
    case False
    with e show ?thesis
      by (subst buggy_advance_exp_checked_arith_loop.simps) (simp add: word_less_nat_alt)
  qed
qed
text \<open>Growing the binary exponent by four per digit: the loop terminates for every
  digit count; with overflow checks it panics exactly when \<open>start + 4 * extra\<close> leaves
  the \<open>i32\<close> range, and otherwise it returns the same value as the wrapping loop.\<close>

theorem buggy_advance_exp_spec:
  "buggy_advance_exp start extra = start + 4 * word_of_nat (unat extra) \<and>
   buggy_advance_exp_checked_arith b start extra =
     (if overflow_checks b \<and> 2 ^ 31 \<le> sint start + 4 * int (unat extra) then Inl AddOverflow
      else Inr (buggy_advance_exp start extra))"
  unfolding buggy_advance_exp_def buggy_advance_exp_checked_arith_def
    buggy_advance_exp_loop_eq buggy_advance_exp_checked_arith_loop_eq by simp

section \<open>Duration division (047, 048)\<close>

definition NANOS_PER_SEC :: u128 where
  "NANOS_PER_SEC = 1000000000"

definition buggy_div_duration_floor :: "u128 \<Rightarrow> u128 \<Rightarrow> u128 run" where
  "buggy_div_duration_floor self_nanos rhs_nanos = prim_div self_nanos rhs_nanos"

definition main_047 :: "unit io" where
  "main_047 =
     (let self_nanos = 1 * NANOS_PER_SEC; rhs_nanos = 0;
          panicked = isl (buggy_div_duration_floor self_nanos rhs_nanos)
      in block [assert_that panicked, println []])"

definition buggy_div_duration_ceil :: "u128 \<Rightarrow> u128 \<Rightarrow> u128 run" where
  "buggy_div_duration_ceil self_nanos rhs_nanos = div_ceil self_nanos rhs_nanos"

definition main_048 :: "unit io" where
  "main_048 =
     (let self_nanos = 1 * NANOS_PER_SEC; rhs_nanos = 0;
          panicked = isl (buggy_div_duration_ceil self_nanos rhs_nanos)
      in block [assert_that panicked, println []])"

text \<open>The ceiling division panics exactly on a zero divisor; otherwise it returns the
  least number of divisors that covers the dividend, over the whole \<open>u128\<close> range.\<close>

theorem buggy_div_duration_ceil_spec: "buggy_div_duration_ceil x y =
   (if y = 0 then Inl DivideByZero else Inr (word_of_nat ((unat x + unat y - 1) div unat y)))"
proof (cases "y = 0")
  case True
  then show ?thesis by (simp add: buggy_div_duration_ceil_def div_ceil_def prim_div_def)
next
  case False
  then have y: "0 < unat y" by (simp add: unat_gt_0)
  have "x div y = word_of_nat (unat x div unat y)" by (simp flip: unat_div_distrib)
  moreover have "(0 < x mod y) = (unat x mod unat y \<noteq> 0)"
    by (simp add: word_less_nat_alt unat_mod_distrib)
  ultimately show ?thesis
    using False ceil_nat [OF y, of "unat x"]
    by (simp add: buggy_div_duration_ceil_def div_ceil_def prim_div_def prim_mod_def)
qed

section \<open>UNICODE_STRING lengths (062)\<close>

definition buggy_lengths :: "build \<Rightarrow> usize \<Rightarrow> (u16 \<times> u16) run" where
  "buggy_lengths b slice_len =
     bind_run (prim_mul b slice_len 2) (\<lambda>bytes.
       let max_len = bytes in Inr (ucast bytes, ucast max_len))"

definition main_062 :: "build \<Rightarrow> unit io" where
  "main_062 b =
     lift_run (buggy_lengths b 32768) (\<lambda>(l1, m1). block
       [assert_that ((l1, m1) = (0, 0)),
        lift_run (buggy_lengths b 32771) (\<lambda>(l2, m2). block
          [assert_that ((l2, m2) = (6, 6)),
           println [VNat (unat l1), VNat (unat m1), VNat (unat l2), VNat (unat m2)]])])"

lemma buggy_lengths_spec: "buggy_lengths b n =
   (if overflow_checks b \<and> 2 ^ 63 \<le> unat n then Inl MulOverflow
    else Inr (word_of_nat (2 * unat n), word_of_nat (2 * unat n)))"
proof -
  have "ucast (n * 2) = (word_of_nat (2 * unat n) :: u16)"
    by (simp only: word_unat_eq_iff unsigned_ucast_eq unat_of_nat take_bit_eq_mod unat_word_ariths)
       (simp add: mod_mod_cancel mult.commute)
  then show ?thesis by (simp add: buggy_lengths_def prim_mul_def)
qed

section \<open>Cached powers of ten (099)\<close>

definition CACHED_POW10_FIRST_E :: i16 where
  "CACHED_POW10_FIRST_E = - 1087"

definition CACHED_POW10_LAST_E :: i16 where
  "CACHED_POW10_LAST_E = 1018"

definition TABLE_LEN :: usize where
  "TABLE_LEN = 81"

definition cached_power_buggy :: "build \<Rightarrow> i16 \<Rightarrow> i16 \<Rightarrow> usize run" where
  "cached_power_buggy b alpha gamma =
     bind_run (prim_sadd b (- 64) 1) (\<lambda>t :: i32.
     bind_run (prim_ssub b t (scast CACHED_POW10_LAST_E)) (\<lambda>alpha_minus_e_minus_one_max.
     let offset = alpha_minus_e_minus_one_max in
     bind_run (prim_ssub b (ucast TABLE_LEN :: i32) 1) (\<lambda>range.
     bind_run (prim_ssub b CACHED_POW10_LAST_E CACHED_POW10_FIRST_E) (\<lambda>d.
     let domain = (scast d :: i32) in
     bind_run (prim_ssub b (scast gamma) offset) (\<lambda>u.
     bind_run (prim_smul b u range) (\<lambda>v.
     bind_run (prim_sdiv v domain) (\<lambda>idx.
     Inr (scast idx))))))))"

definition main_099 :: "build \<Rightarrow> unit io" where
  "main_099 b =
     (let table = replicate (unat TABLE_LEN) (0 :: u64);
          bad_gamma = - 1114
      in lift_run (cached_power_buggy b 0 bad_gamma) (\<lambda>idx.
           let panicked = isl (index_run table (unat idx))
           in block
             [println [VInt (sint bad_gamma), VNat (unat idx)],
              assert_that panicked,
              println []]))"

text \<open>The table index of a cached power never overflows in its computation; it is
  inside the 81-entry table exactly for exponents from -1107 to 1050.\<close>

theorem cached_power_buggy_range:
  "\<exists>idx. cached_power_buggy b alpha gamma = Inr idx \<and>
     (unat idx < unat TABLE_LEN \<longleftrightarrow> - 1107 \<le> sint gamma \<and> sint gamma \<le> 1050)"
proof -
  define g where "g = sint gamma"
  have g: "- 32768 \<le> g" "g < 32768" using sint_bounds [of gamma] by (simp_all add: g_def)
  have sg: "sint (scast gamma :: i32) = g" by (simp add: g_def sint_scast_up)
  define u :: i32 where "u = scast gamma - (- 1081)"
  have u: "prim_ssub b (scast gamma) (- 1081 :: i32) = Inr u" "sint u = g + 1081"
    using g prim_signed_exact(2) [of "scast gamma :: i32" "- 1081" b] sint_exact(2) [of "scast gamma :: i32" "- 1081"]
    by (simp_all add: u_def sg fits_signed_def)
  have v: "prim_smul b u 80 = Inr (u * 80)" "sint (u * 80) = (g + 1081) * 80"
    using g prim_signed_exact(3) [of u 80 b] sint_exact(3) [of u 80]
    by (simp_all add: u fits_signed_def)
  define q where "q = (g + 1081) * 80 sdiv 2105"
  have q: "- 32768 < q" "q < 32768" "0 \<le> q \<and> q < 81 \<longleftrightarrow> - 1107 \<le> g \<and> g \<le> 1050"
    using g by (auto simp: q_def signed_divide_int_def sgn_if) 
  have e: "sint (u * 80) sdiv sint (2105 :: i32) = q" by (simp only: v q_def) simp
  have w: "prim_sdiv (u * 80) 2105 = Inr (word_of_int q :: i32)"
    using q(1,2) by (simp only: prim_sdiv_def e) (simp add: fits_signed_def)
  have sq: "sint (word_of_int q :: i32) = q" using q by (simp add: sint_word_of_int_fits fits_signed_def)
  define idx :: usize where "idx = scast (word_of_int q :: i32)"
  have steps: "prim_sadd b (- 64) 1 = Inr (- 63 :: i32)"
    "prim_ssub b (- 63) (scast CACHED_POW10_LAST_E) = Inr (- 1081 :: i32)"
    "prim_ssub b (ucast TABLE_LEN) 1 = Inr (80 :: i32)"
    "prim_ssub b CACHED_POW10_LAST_E CACHED_POW10_FIRST_E = Inr 2105"
    by (simp_all add: prim_sadd_def prim_ssub_def fits_signed_def CACHED_POW10_LAST_E_def
        CACHED_POW10_FIRST_E_def TABLE_LEN_def)
  have "cached_power_buggy b alpha gamma = Inr idx"
    by (simp add: cached_power_buggy_def steps u v w Let_def idx_def)
  moreover have "sint idx = q" by (simp add: idx_def sint_scast_up sq)
  then have "uint idx = q mod 2 ^ 64" by (simp add: uint_sint take_bit_eq_mod)
  then have "uint idx = (if 0 \<le> q then q else q + 2 ^ 64)"
    using q(1,2) mod_pos_pos_trivial [of "q + 2 ^ 64" "2 ^ 64"] by auto
  then have "unat idx < 81 \<longleftrightarrow> 0 \<le> q \<and> q < 81"
    using q(1,2) by (auto simp: unat_eq_nat_uint)
  ultimately show ?thesis using q(3) by (simp add: TABLE_LEN_def g_def)
qed


section \<open>Negated error codes (105, 106)\<close>

text \<open>
  The trait \<open>IsNegative\<close> is a pair of methods, passed to \<open>cvt\<close> as the compiler passes
  them. 105 implements it by macro for \<open>i8\<close>, \<open>i16\<close>, \<open>i64\<close> and \<open>isize\<close>: one definition,
  generic in the width. 106 implements it for \<open>i32\<close> without the conversion.
\<close>

definition is_negative :: "'a::len word \<Rightarrow> bool" where
  "is_negative self \<longleftrightarrow> sint self < 0"

definition negate :: "build \<Rightarrow> 'a::len word \<Rightarrow> i32 run" where
  "negate b self = bind_run (prim_neg b self) (\<lambda>n. unwrap_result (i32_try_from n))"

definition negate_i32 :: "build \<Rightarrow> i32 \<Rightarrow> i32 run" where
  "negate_i32 b self = prim_neg b self"

definition cvt :: "('t \<Rightarrow> bool) \<Rightarrow> ('t \<Rightarrow> i32 run) \<Rightarrow> 't \<Rightarrow> ('t, i32) result run" where
  "cvt is_neg neg t =
     (if is_neg t then bind_run (neg t) (\<lambda>e. Inr (Err e)) else Inr (Ok t))"

definition i64_MIN :: i64 where
  "i64_MIN = 2 ^ 63"

definition main_105 :: "build \<Rightarrow> unit io" where
  "main_105 b =
     (case cvt is_negative (negate b) i64_MIN of
        Inl _ \<Rightarrow> println []
      | Inr (Ok _) \<Rightarrow> println [VOk VUnit]
      | Inr (Err e) \<Rightarrow> println [VErr (VInt (sint e))])"

definition i32_MIN :: i32 where
  "i32_MIN = 2 ^ 31"

definition main_106 :: "build \<Rightarrow> unit io" where
  "main_106 b =
     (case cvt is_negative (negate_i32 b) i32_MIN of Inl _ \<Rightarrow> println [] | Inr _ \<Rightarrow> println [])"

lemma negate_spec:
  fixes x :: "'a::len word"
  assumes "sint x < 0"
  shows "negate b x =
    (if sint x = - (2 ^ (LENGTH('a) - 1)) then
       (if overflow_checks b then Inl NegOverflow
        else if LENGTH('a) \<le> 32 then Inr (word_of_int (sint x)) else Inl UnwrapErr)
     else if - (2 ^ 31) < sint x then Inr (word_of_int (- sint x)) else Inl UnwrapErr)"
proof -
  have p: "(2::int) ^ (LENGTH('a) - 1) \<le> 2 ^ 31 \<longleftrightarrow> LENGTH('a) \<le> 32"
    by (subst power_increasing_iff) auto
  have "- ((2 :: int) ^ (LENGTH('a) - Suc 0)) < 2147483648"
    by (rule order_less_le_trans [of _ 0]) simp_all
  with p assms show ?thesis
    by (auto simp: negate_def prim_neg_cases i32_try_from_def fits_signed_def)
qed

text \<open>
  What a caller of \<open>cvt\<close> may rely on, whichever implementation of the trait is used:
  above the smallest value of the type, a negative value in the \<open>i32\<close> range becomes its
  absolute value.
\<close>

locale is_negative_trait =
  fixes neg_test :: "'t \<Rightarrow> bool" and negate_op :: "'t \<Rightarrow> i32 run"
    and val_of :: "'t \<Rightarrow> int" and least :: int
  assumes neg_test_iff: "neg_test t \<longleftrightarrow> val_of t < 0"
    and negate_exact: "least < val_of t \<Longrightarrow> - (2 ^ 31) < val_of t \<Longrightarrow> val_of t < 0 \<Longrightarrow>
      negate_op t = Inr (word_of_int (- val_of t))"
begin

lemma cvt_errno:
  "least < val_of t \<Longrightarrow> - (2 ^ 31) < val_of t \<Longrightarrow>
   cvt neg_test negate_op t =
     Inr (if val_of t < 0 then Err (word_of_int (- val_of t)) else Ok t)"
  by (simp add: cvt_def neg_test_iff negate_exact)

end

interpretation macro_impl: is_negative_trait "is_negative :: 'a::len word \<Rightarrow> bool" "negate b"
    sint "- (2 ^ (LENGTH('a) - 1)) :: int"
  for b :: build
  by unfold_locales (simp_all add: is_negative_def negate_spec)

interpretation i32_impl: is_negative_trait is_negative "negate_i32 b" sint "- (2 ^ 31) :: int"
  for b :: build
  by unfold_locales (simp_all add: is_negative_def negate_i32_def prim_neg_cases)

text \<open>The error conversion of the macro implementation, at every width and build: a
  non-negative value is passed through; the smallest value of the type panics with
  overflow checks and is forwarded negative (narrow types) or panics in the conversion
  (wide types) without; any other negative value is negated exactly when it fits \<open>i32\<close>
  and panics otherwise.\<close>

theorem cvt_negate_spec:
  fixes x :: "'a::len word"
  shows "cvt is_negative (negate b) x =
    (if 0 \<le> sint x then Inr (Ok x)
     else if sint x = - (2 ^ (LENGTH('a) - 1)) then
       (if overflow_checks b then Inl NegOverflow
        else if LENGTH('a) \<le> 32 then Inr (Err (word_of_int (sint x))) else Inl UnwrapErr)
     else if - (2 ^ 31) < sint x then Inr (Err (word_of_int (- sint x))) else Inl UnwrapErr)"
  by (simp add: cvt_def is_negative_def negate_spec)

text \<open>The two implementations of the trait agree on every \<open>i32\<close> but the smallest: the
  caller gets the positive error code.\<close>

theorem cvt_i32_implementations_agree:
  assumes "sint x \<noteq> - (2 ^ 31)"
  shows "cvt is_negative (negate_i32 b) x = cvt is_negative (negate b) x \<and>
    cvt is_negative (negate_i32 b) x = Inr (if sint x < 0 then Err (- x) else Ok x)"
proof -
  have "- (2 ^ 31) < sint x" using sint_bounds [of x] assms by simp
  then show ?thesis
    using i32_impl.cvt_errno [of x b] macro_impl.cvt_errno [of x b] by simp
qed

theorem cvt_i32_implementations_agree_witness:
  "cvt is_negative (negate_i32 checked_build) (- 5) = cvt is_negative (negate checked_build) (- 5 :: i32)"
  using cvt_i32_implementations_agree [of "- 5" checked_build] by simp

section \<open>Double-width multiply-add (182)\<close>

text \<open>\<open>isize as u128\<close> extends the sign, as \<open>isize as i128\<close> does.\<close>

definition carrying_mul_add_unsigned_widening ::
    "isize \<Rightarrow> isize \<Rightarrow> isize \<Rightarrow> isize \<Rightarrow> usize \<times> isize" where
  "carrying_mul_add_unsigned_widening a b c d =
     (let wide = (scast a :: u128) * scast b + scast c + scast d
      in (ucast wide, ucast (drop_bit 64 wide)))"

definition carrying_mul_add_signed_widening ::
    "build \<Rightarrow> isize \<Rightarrow> isize \<Rightarrow> isize \<Rightarrow> isize \<Rightarrow> (usize \<times> isize) run" where
  "carrying_mul_add_signed_widening bd a b c d =
     bind_run (prim_smul bd (scast a :: i128) (scast b)) (\<lambda>p.
     bind_run (prim_sadd bd p (scast c)) (\<lambda>q.
     bind_run (prim_sadd bd q (scast d)) (\<lambda>wide.
       Inr (ucast wide, ucast (signed_drop_bit 64 wide)))))"

definition main_182 :: "build \<Rightarrow> unit io" where
  "main_182 bd =
     (let buggy = carrying_mul_add_unsigned_widening (- 1) (- 1) 0 0
      in lift_run (carrying_mul_add_signed_widening bd (- 1) (- 1) 0 0) (\<lambda>correct. block
        [println [VNat (unat (fst buggy)), VInt (sint (snd buggy))],
         println [VNat (unat (fst correct)), VInt (sint (snd correct))],
         assert_that (correct = (1, 0)),
         assert_that (buggy \<noteq> correct)]))"

lemma isize_product_fits: "fits_signed 128 (sint (a :: isize) * sint (b :: isize) + sint (c :: isize) + sint (d :: isize))"
  "fits_signed 128 (sint a * sint b)" "fits_signed 128 (sint a * sint b + sint c)"
proof -
  have ab: "\<bar>sint a\<bar> \<le> 2 ^ 63" "\<bar>sint b\<bar> \<le> 2 ^ 63" "\<bar>sint c\<bar> \<le> 2 ^ 63" "\<bar>sint d\<bar> \<le> 2 ^ 63"
    using sint_bounds [of a] sint_bounds [of b] sint_bounds [of c] sint_bounds [of d] by simp_all
  then have "\<bar>sint a * sint b\<bar> \<le> 2 ^ 63 * 2 ^ 63"
    unfolding abs_mult by (intro mult_mono) simp_all
  with ab show "fits_signed 128 (sint a * sint b + sint c + sint d)"
    "fits_signed 128 (sint a * sint b)" "fits_signed 128 (sint a * sint b + sint c)"
    by (simp_all add: fits_signed_def) linarith+
qed

lemma high_half_eq: "(ucast (signed_drop_bit 64 w) :: 64 word) = ucast (drop_bit 64 (w :: 128 word))"
  by (rule bit_word_eqI) (auto simp: bit_simps)

text \<open>C6. Widening through \<open>u128\<close> with wrapping arithmetic and widening through \<open>i128\<close>
  return the same two halves for every input, and the signed computation never overflows
  in any build.\<close>

theorem carrying_mul_add_agree:
  "carrying_mul_add_signed_widening bd a b c d = Inr (carrying_mul_add_unsigned_widening a b c d)"
proof -
  let ?a = "scast a :: i128" and ?b = "scast b :: i128" and ?c = "scast c :: i128" and ?d = "scast d :: i128"
  have s: "sint ?a = sint a" "sint ?b = sint b" "sint ?c = sint c" "sint ?d = sint d"
    by (simp_all add: sint_scast_up)
  have p: "prim_smul bd ?a ?b = Inr (?a * ?b)" "sint (?a * ?b) = sint a * sint b"
    by (simp_all add: prim_signed_exact sint_exact s isize_product_fits)
  have q: "prim_sadd bd (?a * ?b) ?c = Inr (?a * ?b + ?c)" "sint (?a * ?b + ?c) = sint a * sint b + sint c"
    by (simp_all add: prim_signed_exact sint_exact s p isize_product_fits)
  have r: "prim_sadd bd (?a * ?b + ?c) ?d = Inr (?a * ?b + ?c + ?d)"
    by (simp add: prim_signed_exact s q isize_product_fits)
  show ?thesis
    by (simp add: carrying_mul_add_signed_widening_def carrying_mul_add_unsigned_widening_def
        p(1) q(1) r high_half_eq Let_def)
qed

section \<open>Outcomes of the programs\<close>

lemma main_043_outcome:
  "exit_of (main_043 b) =
     (if debug_assertions b \<and> \<not> overflow_checks b then Panicked AssertFailed else Exited 0)"
  by (simp add: main_043_def Let_def exit_simps buggy_round_def buggy_round_checked_arith_def
      MIN_STACK_SIZE_def prim_add_def)

lemma main_044_outcome: "exit_of main_044 = Exited 0"
  by (simp add: main_044_def exit_simps buggy_mapping_length_def GUARD_PAGE_SIZE_def Let_def)

lemma main_045_outcome:
  "exit_of (main_045 b) =
     (if debug_assertions b \<and> \<not> overflow_checks b then Panicked AssertFailed else Exited 0)"
  by (simp add: main_045_def digits_045_def buggy_accumulate_def buggy_accumulate_checked_arith_def
      exit_simps Let_def arith_ops)

lemma main_046_outcome:
  "exit_of (main_046 b) =
     (if debug_assertions b \<and> \<not> overflow_checks b then Panicked AssertFailed else Exited 0)"
  by (simp add: main_046_def Let_def exit_simps buggy_advance_exp_def
      buggy_advance_exp_checked_arith_def buggy_advance_exp_loop_eq
      buggy_advance_exp_checked_arith_loop_eq)

lemma main_047_outcome: "exit_of main_047 = Exited 0"
  by (simp add: main_047_def buggy_div_duration_floor_def prim_div_def exit_simps)

lemma main_048_outcome: "exit_of main_048 = Exited 0"
  by (simp add: main_048_def buggy_div_duration_ceil_def div_ceil_def prim_div_def exit_simps)

lemma main_062_outcome: "exit_of (main_062 b) = Exited 0"
  by (simp add: main_062_def exit_simps buggy_lengths_def prim_mul_def)

lemma main_099_outcome: "exit_of (main_099 b) = Exited 0"
  by (simp add: main_099_def exit_simps cached_power_buggy_def arith_ops fits_signed_def
      CACHED_POW10_LAST_E_def CACHED_POW10_FIRST_E_def TABLE_LEN_def index_run_def Let_def
      unat_max_word)

lemma main_105_outcome: "exit_of (main_105 b) = Exited 0"
  by (simp add: main_105_def exit_simps split: sum.splits result.splits)

lemma main_106_outcome: "exit_of (main_106 b) = Exited 0"
  by (simp add: main_106_def exit_simps split: sum.splits result.splits)

lemma main_182_fails: "exit_of (main_182 bd) = Panicked AssertFailed"
  by (simp add: main_182_def exit_simps carrying_mul_add_unsigned_widening_def
      carrying_mul_add_signed_widening_def prim_signed_exact fits_signed_def)

text \<open>Which programs of this theory end normally. 043, 045 and 046 take
  \<open>cfg!(debug_assertions)\<close> for the overflow-checks switch, so they fail their own
  assertion in a build with debug assertions and without overflow checks; 182 fails its
  last assertion in every build; the others always succeed.\<close>

theorem overflow_poc_outcomes:
  "exit_of (main_043 b) =
     (if debug_assertions b \<and> \<not> overflow_checks b then Panicked AssertFailed else Exited 0) \<and>
   exit_of (main_045 b) = exit_of (main_043 b) \<and>
   exit_of (main_046 b) = exit_of (main_043 b) \<and>
   exit_of (main_182 b) = Panicked AssertFailed \<and>
   exit_of main_044 = Exited 0 \<and> exit_of main_047 = Exited 0 \<and>
   exit_of main_048 = Exited 0 \<and> exit_of (main_062 b) = Exited 0 \<and>
   exit_of (main_099 b) = Exited 0 \<and> exit_of (main_105 b) = Exited 0 \<and>
   exit_of (main_106 b) = Exited 0"
  by (simp only: main_043_outcome main_044_outcome main_045_outcome main_046_outcome
      main_047_outcome main_048_outcome main_062_outcome main_099_outcome main_105_outcome
      main_106_outcome main_182_fails simp_thms)

end
