(* ===== verification/Bounds.thy ===== *)
theory Bounds
  imports Prelude
begin

text \<open>
  Lengths and offsets that come from outside: the UEFI file name (006), the Windows
  reparse buffer (008) and directory entry (009), AltiVec lane indices (090, 091), the
  scratch length of the stable quicksort (100), the size of a socket address (142) and
  the clamped slice prefix (181). Each check is modelled with the operators it uses, so
  that a subtraction that could underflow is seen not to; the validators provide one
  interface, which says that an accepted request lies inside the buffer.
\<close>

section \<open>The interface of the validators\<close>

text \<open>
  What the code that builds the name slice needs from a validator: an accepted request
  describes a byte range that lies inside the part of the buffer it was checked against.
\<close>

locale slice_validator =
  fixes accept :: "'req \<Rightarrow> bool" and first_byte past_byte limit :: "'req \<Rightarrow> nat"
  assumes ordered: "accept q \<Longrightarrow> first_byte q \<le> past_byte q"
    and inside: "accept q \<Longrightarrow> past_byte q \<le> limit q"
begin

lemma accepted_slice:
  assumes "accept q" and "limit q \<le> length buf"
  shows "\<exists>name. slice_range buf (first_byte q) (past_byte q) = Inr name \<and>
    length name = past_byte q - first_byte q"
  using ordered [OF assms(1)] inside [OF assms(1)] assms(2) by (auto simp: slice_range_def)

end

section \<open>UEFI file name length (006)\<close>

definition HEADER_SIZE_006 :: usize where
  "HEADER_SIZE_006 = 80"

definition buggy_len :: "u64 \<Rightarrow> usize" where
  "buggy_len sz = (let s = ucast sz in (s - HEADER_SIZE_006) div 2)"

definition patched_len :: "u64 \<Rightarrow> usize" where
  "patched_len sz = saturating_sub (ucast sz) HEADER_SIZE_006 div 2"

definition main_006 :: "unit io" where
  "main_006 =
     (let malformed_size = 0; bad = buggy_len malformed_size; good = patched_len malformed_size
      in block
        [println [VNat (unat bad)],
         println [VNat (unat good)],
         assert_that (bad > 1000000000),
         assert_that (good = 0)])"

lemma unat_patched_len: "unat (patched_len sz) = (unat sz - 80) div 2"
  using unat_sub_exact [of "80 :: usize" sz]
  by (auto simp: patched_len_def HEADER_SIZE_006_def saturating_sub_def unat_div_2)

interpretation uefi_name: slice_validator "\<lambda>sz. True" "\<lambda>sz. 80"
    "\<lambda>sz. 80 + 2 * unat (patched_len sz)" "\<lambda>sz. max 80 (unat sz)"
  by unfold_locales (auto simp: unat_patched_len)

text \<open>C40. The two name-length computations on every size field: the patched one counts
  the whole code units after the 80-byte header (none when the size is smaller than the
  header), so the name ends inside the record; the unpatched one agrees from 80 bytes on
  and wraps around below, to a length no record can have.\<close>

theorem file_name_len_spec:
  "unat (patched_len sz) = (unat sz - 80) div 2 \<and>
   80 + 2 * unat (patched_len sz) \<le> max 80 (unat sz) \<and>
   unat (buggy_len sz) =
     (if unat sz < 80 then (2 ^ 64 + unat sz - 80) div 2 else unat (patched_len sz))"
  using uefi_name.inside [of sz] unat_sub_exact [of "80 :: usize" sz] unat_sub_wrap [of sz "80 :: usize"]
  by (auto simp: unat_patched_len buggy_len_def HEADER_SIZE_006_def unat_div_2 Let_def)

section \<open>Windows reparse buffer (008)\<close>

definition MAXIMUM_REPARSE_DATA_BUFFER_SIZE :: usize where
  "MAXIMUM_REPARSE_DATA_BUFFER_SIZE = 16384"

definition HEADER_SIZE_008 :: usize where
  "HEADER_SIZE_008 = 8"

definition PATH_BUFFER_OFFSET_IN_SYMLINK :: usize where
  "PATH_BUFFER_OFFSET_IN_SYMLINK = 12"

definition buggy_008 :: "build \<Rightarrow> u16 \<Rightarrow> u16 \<Rightarrow> (u16 \<times> u16 \<times> usize) run" where
  "buggy_008 b subst_off_bytes subst_len_bytes =
     (let subst_off = subst_off_bytes div 2; subst_len = subst_len_bytes div 2 in
      bind_run (prim_mul b (ucast subst_off) 2) (\<lambda>x.
      bind_run (prim_mul b (ucast subst_len) 2) (\<lambda>y.
      bind_run (prim_add b x y) (\<lambda>end_bytes.
      Inr (subst_off, subst_len, end_bytes)))))"

definition patched_008 :: "build \<Rightarrow> usize \<Rightarrow> usize \<Rightarrow> u16 \<Rightarrow> u16 \<Rightarrow> (unit, string) result run" where
  "patched_008 b bytes_returned reparse_data_len subst_off subst_len =
     (if bytes_returned < HEADER_SIZE_008 \<or> bytes_returned > MAXIMUM_REPARSE_DATA_BUFFER_SIZE
      then Inr (Err ''invalid reparse data (bytes_returned)'')
      else bind_run (prim_sub b bytes_returned HEADER_SIZE_008) (\<lambda>data_room.
        if data_room < reparse_data_len
        then Inr (Err ''invalid reparse data (data length)'')
        else if reparse_data_len < PATH_BUFFER_OFFSET_IN_SYMLINK
        then Inr (Err ''invalid reparse data (path buffer)'')
        else bind_run (prim_sub b reparse_data_len PATH_BUFFER_OFFSET_IN_SYMLINK) (\<lambda>path_buffer_len.
          case checked_add (ucast subst_off :: usize) (ucast subst_len) of
            None \<Rightarrow> Inr (Err ''overflow'')
          | Some end_bytes \<Rightarrow>
              if subst_off mod 2 \<noteq> 0 \<or> subst_len mod 2 \<noteq> 0 \<or> end_bytes > path_buffer_len
              then Inr (Err ''invalid reparse data (offset/length)'')
              else Inr (Ok ()))))"

definition main_008 :: "build \<Rightarrow> unit io" where
  "main_008 b =
     (let subst_off_bytes = 0xfffe; subst_len_bytes = 2;
          bytes_returned = HEADER_SIZE_008 + PATH_BUFFER_OFFSET_IN_SYMLINK + 4;
          reparse_data_len = PATH_BUFFER_OFFSET_IN_SYMLINK + 4
      in lift_run (buggy_008 b subst_off_bytes subst_len_bytes) (\<lambda>(off, len, end_bytes). block
        [println [VNat (unat off)],
         println [VNat (unat len)],
         println [VNat (unat end_bytes), VNat (unat MAXIMUM_REPARSE_DATA_BUFFER_SIZE)],
         assert_that (end_bytes > MAXIMUM_REPARSE_DATA_BUFFER_SIZE),
         lift_run (patched_008 b bytes_returned reparse_data_len subst_off_bytes subst_len_bytes)
           (\<lambda>r. case r of Err e \<Rightarrow> println [VStr e] | Ok _ \<Rightarrow> panic_now)]))"

lemma u16_as_usize: "unat (ucast (x :: u16) :: usize) = unat x"
  by (simp add: unat_ucast_up)

lemma u16_less: "unat (x :: u16) < 65536"
  using unsigned_less [of x] by simp

lemma u16_sum: "unat (ucast (x :: u16) + ucast (y :: u16) :: usize) = unat x + unat y"
  using unat_add_exact [of "ucast x :: usize" "ucast y"] u16_less [of x] u16_less [of y]
  by (simp add: u16_as_usize)

lemma u16_checked_add: "checked_add (ucast (x :: u16) :: usize) (ucast (y :: u16)) = Some (ucast x + ucast y)"
  using u16_less [of x] u16_less [of y] by (simp add: checked_add_def u16_as_usize)

text \<open>The validator in plain arithmetic: no operator in it can overflow.\<close>

lemma patched_008_eq:
  "patched_008 b bytes_returned reparse_data_len subst_off subst_len = Inr
     (if unat bytes_returned < 8 \<or> 16384 < unat bytes_returned
      then Err ''invalid reparse data (bytes_returned)''
      else if unat bytes_returned < 8 + unat reparse_data_len
      then Err ''invalid reparse data (data length)''
      else if unat reparse_data_len < 12
      then Err ''invalid reparse data (path buffer)''
      else if odd (unat subst_off) \<or> odd (unat subst_len) \<or>
              unat reparse_data_len < 12 + unat subst_off + unat subst_len
      then Err ''invalid reparse data (offset/length)''
      else Ok ())"
proof -
  note defs = patched_008_def HEADER_SIZE_008_def MAXIMUM_REPARSE_DATA_BUFFER_SIZE_def
    PATH_BUFFER_OFFSET_IN_SYMLINK_def
  show ?thesis
  proof (cases "8 \<le> unat bytes_returned \<and> unat bytes_returned \<le> 16384")
    case False
    then show ?thesis by (auto simp: defs word_less_nat_alt)
  next
    case c1: True
    then have s1: "prim_sub b bytes_returned 8 = Inr (bytes_returned - 8)"
      "unat (bytes_returned - 8) = unat bytes_returned - 8"
      using unat_sub_exact [of "8 :: usize" bytes_returned] by (simp_all add: prim_sub_exact)
    show ?thesis
    proof (cases "12 \<le> unat reparse_data_len \<and> 8 + unat reparse_data_len \<le> unat bytes_returned")
      case False
      with c1 s1 show ?thesis by (auto simp: defs word_less_nat_alt)
    next
      case c2: True
      then have s2: "prim_sub b reparse_data_len 12 = Inr (reparse_data_len - 12)"
        "unat (reparse_data_len - 12) = unat reparse_data_len - 12"
        using unat_sub_exact [of "12 :: usize" reparse_data_len] by (simp_all add: prim_sub_exact)
      from c1 c2 show ?thesis
        by (auto simp: defs word_less_nat_alt s1 s2 u16_checked_add u16_sum word_mod_2)
    qed
  qed
qed

interpretation reparse: slice_validator
    "\<lambda>(br, rl, so, sl). patched_008 b br rl so sl = Inr (Ok ())"
    "\<lambda>(br, rl, so, sl). 20 + unat so" "\<lambda>(br, rl, so, sl). 20 + unat so + unat sl"
    "\<lambda>(br, rl, so, sl). unat br"
  for b :: build
  by unfold_locales (auto simp: patched_008_eq split: if_splits)

text \<open>C14. The reparse validator never panics and its overflow branch is dead; it accepts
  exactly the requests whose even, in-range name lies within the declared data, which
  itself lies within the bytes returned.\<close>

theorem patched_008_accepts:
  "\<exists>r. patched_008 b bytes_returned reparse_data_len subst_off subst_len = Inr r \<and>
     r \<noteq> Err ''overflow'' \<and>
     (r = Ok () \<longleftrightarrow>
        8 \<le> unat bytes_returned \<and> unat bytes_returned \<le> 16384 \<and>
        12 \<le> unat reparse_data_len \<and> 8 + unat reparse_data_len \<le> unat bytes_returned \<and>
        even (unat subst_off) \<and> even (unat subst_len) \<and>
        12 + unat subst_off + unat subst_len \<le> unat reparse_data_len)"
  by (auto simp: patched_008_eq)

text \<open>Reading the name of an accepted reparse request from the returned bytes cannot
  panic and yields exactly the requested number of bytes.\<close>

theorem accepted_reparse_name:
  assumes "patched_008 b br rl so sl = Inr (Ok ())" and "unat br \<le> length buf"
  shows "\<exists>name. slice_range buf (20 + unat so) (20 + unat so + unat sl) = Inr name \<and> length name = unat sl"
  using reparse.accepted_slice [of b "(br, rl, so, sl)" buf] assms by simp

theorem accepted_reparse_name_witness:
  "\<exists>name. slice_range (replicate 32 (0 :: u8)) 22 26 = Inr name \<and> length name = 4"
  using accepted_reparse_name [of "\<lparr>overflow_checks = True, debug_assertions = True\<rparr>" 32 24 2 4 "replicate 32 0"]
  by (simp add: patched_008_eq)

section \<open>Windows directory entries (009)\<close>

definition NAME_OFFSET :: usize where
  "NAME_OFFSET = 102"

definition buggy_request_elems :: "usize \<Rightarrow> usize" where
  "buggy_request_elems file_name_length = file_name_length div 2"

definition patched_check :: "build \<Rightarrow> usize \<Rightarrow> usize \<Rightarrow> usize \<Rightarrow> (usize, string) result run" where
  "patched_check b buffer_len next_entry file_name_length =
     (if buffer_len < NAME_OFFSET then Inr (Err ''buffer < name offset'')
      else
        (let entry_len = (if next_entry = 0 then buffer_len else next_entry) in
         if entry_len > buffer_len \<or> entry_len < NAME_OFFSET \<or> file_name_length mod 2 \<noteq> 0
         then Inr (Err ''malformed entry'')
         else bind_run (prim_sub b entry_len NAME_OFFSET) (\<lambda>room.
           if file_name_length > room then Inr (Err ''malformed entry'')
           else Inr (Ok (file_name_length div 2)))))"

definition main_009 :: "build \<Rightarrow> unit io" where
  "main_009 b =
     (let buffer_len = 1024; next_entry = 0; file_name_length = 2048;
          requested = buggy_request_elems file_name_length
      in lift_run (prim_mul b requested 2) (\<lambda>bytes.
         lift_run (prim_add b NAME_OFFSET bytes) (\<lambda>name_end.
         lift_run (prim_sub b name_end buffer_len) (\<lambda>bytes_past. block
           [println [VNat (unat requested), VNat (unat bytes_past)],
            assert_that (name_end > buffer_len),
            lift_run (patched_check b buffer_len next_entry file_name_length)
              (\<lambda>r. case r of Ok _ \<Rightarrow> panic_now | Err e \<Rightarrow> println [VStr e])]))))"

lemma patched_check_eq:
  "patched_check b buffer_len next_entry file_name_length =
     (let entry_len = (if next_entry = 0 then unat buffer_len else unat next_entry) in Inr
       (if unat buffer_len < 102 then Err ''buffer < name offset''
        else if unat buffer_len < entry_len \<or> odd (unat file_name_length) \<or>
                entry_len < 102 + unat file_name_length
        then Err ''malformed entry''
        else Ok (file_name_length div 2)))"
proof -
  define e where "e = (if next_entry = 0 then buffer_len else next_entry)"
  have e: "unat e = (if next_entry = 0 then unat buffer_len else unat next_entry)" by (simp add: e_def)
  show ?thesis
  proof (cases "102 \<le> unat e")
    case True
    then have s: "prim_sub b e 102 = Inr (e - 102)" "unat (e - 102) = unat e - 102"
      using unat_sub_exact [of "102 :: usize" e] by (simp_all add: prim_sub_exact)
    show ?thesis
      using True unfolding patched_check_def e [symmetric] e_def [symmetric]
      by (auto simp: NAME_OFFSET_def word_less_nat_alt s word_mod_2 Let_def)
  next
    case False
    then show ?thesis
      unfolding patched_check_def e [symmetric] e_def [symmetric]
      by (auto simp: NAME_OFFSET_def word_less_nat_alt Let_def)
  qed
qed

interpretation dir_entry: slice_validator
    "\<lambda>(bl, ne, fl). patched_check b bl ne fl = Inr (Ok (fl div 2))"
    "\<lambda>(bl, ne, fl). 102" "\<lambda>(bl, ne, fl). 102 + unat fl" "\<lambda>(bl, ne, fl). unat bl"
  for b :: build
  by unfold_locales (auto simp: patched_check_eq Let_def split: if_splits)

text \<open>A directory entry whose check returns a number of code units has its whole name
  inside the buffer: taking the slice cannot panic and has twice that many bytes.\<close>

theorem accepted_dir_name:
  assumes "patched_check b bl ne fl = Inr (Ok n)" and "unat bl \<le> length buf"
  shows "\<exists>name. slice_range buf 102 (102 + 2 * unat n) = Inr name \<and> length name = 2 * unat n"
proof -
  from assms(1) have n: "n = fl div 2" and fl: "2 * unat (fl div 2) = unat fl"
    by (auto simp: patched_check_eq Let_def unat_div_2 split: if_splits)
  then show ?thesis
    using dir_entry.accepted_slice [of b "(bl, ne, fl)" buf] assms by simp
qed

theorem accepted_dir_name_witness:
  "\<exists>name. slice_range (replicate 128 (0 :: u8)) 102 (102 + 2 * unat (10 :: usize)) = Inr name \<and>
     length name = 2 * unat (10 :: usize)"
  by (rule accepted_dir_name
        [where b = "\<lparr>overflow_checks = True, debug_assertions = True\<rparr>" and bl = 128 and ne = 0
           and fl = 20])
     (simp_all add: patched_check_eq)

section \<open>AltiVec lane indices (090, 091)\<close>

text \<open>The element type enters only by its size; the two files have the same helpers.\<close>

definition idx_in_vec_buggy :: "u32 \<Rightarrow> u32 \<Rightarrow> u32 run" where
  "idx_in_vec_buggy size_of_T IDX = bind_run (prim_div 16 size_of_T) (\<lambda>lanes. Inr (IDX AND lanes))"

definition idx_in_vec_fixed :: "u32 \<Rightarrow> u32 \<Rightarrow> u32 run" where
  "idx_in_vec_fixed size_of_T IDX = bind_run (prim_div 16 size_of_T) (\<lambda>lanes. prim_mod IDX lanes)"

definition main_090 :: "unit io" where
  "main_090 =
     (let lane_count_byte = 16 in
      lift_run (idx_in_vec_buggy 1 16) (\<lambda>buggy.
      lift_run (idx_in_vec_fixed 1 16) (\<lambda>fixed. block
        [println [],
         println [VNat (unat buggy), VNat (unat lane_count_byte)],
         println [VNat (unat fixed), VNat (unat lane_count_byte)],
         assert_that (buggy = 16),
         assert_that (buggy \<ge> lane_count_byte),
         assert_that (fixed = 0),
         assert_that (fixed < lane_count_byte),
         println [VNat (unat buggy), VNat (unat lane_count_byte)]])))"

definition main_091 :: "unit io" where
  "main_091 =
     lift_run (idx_in_vec_buggy 1 16) (\<lambda>buggy_u8.
     lift_run (idx_in_vec_buggy 1 16) (\<lambda>buggy_i8.
     lift_run (idx_in_vec_fixed 1 16) (\<lambda>fixed_u8. block
       [println [],
        println [VNat (unat buggy_u8), VNat (unat buggy_i8), VNat (unat fixed_u8)],
        assert_that (buggy_u8 = 16),
        assert_that (buggy_i8 = 16),
        assert_that (fixed_u8 = 0),
        assert_that (buggy_u8 \<ge> 16)])))"

lemma and_exp_eq: "(idx :: u32) AND 2 ^ k = (if bit idx k then 2 ^ k else 0)"
  by (rule bit_word_eqI) (auto simp: bit_simps)

text \<open>For a vector of \<open>2 ^ k\<close> lanes the fixed helper returns the index modulo the
  number of lanes, always in range; the buggy one returns one of two values, the number
  of lanes itself (out of range) when bit \<open>k\<close> of the index is set and lane 0 otherwise.\<close>

theorem idx_in_vec_lanes:
  assumes "k \<le> 4"
  shows "idx_in_vec_buggy (2 ^ (4 - k)) IDX = Inr (if bit IDX k then 2 ^ k else 0) \<and>
    idx_in_vec_fixed (2 ^ (4 - k)) IDX = Inr (take_bit k IDX)"
proof -
  have "k = 0 \<or> k = 1 \<or> k = 2 \<or> k = 3 \<or> k = 4" using assms by linarith
  then have l: "prim_div 16 (2 ^ (4 - k) :: u32) = Inr (2 ^ k)"
    by (auto simp: prim_div_def)
  moreover have "(2 :: u32) ^ k \<noteq> 0" using assms by simp
  ultimately show ?thesis
    by (simp add: idx_in_vec_buggy_def idx_in_vec_fixed_def prim_mod_def and_exp_eq take_bit_eq_mod)
qed

theorem idx_in_vec_lanes_witness:
  "idx_in_vec_buggy 2 13 = Inr 8 \<and> idx_in_vec_fixed 2 13 = Inr 5"
  using idx_in_vec_lanes [of 3 13] by (simp add: bit_numeral_rec)

section \<open>Quicksort scratch length (100)\<close>

definition documented_min_scratch :: "nat \<Rightarrow> nat \<Rightarrow> nat" where
  "documented_min_scratch v_len small_sort_scratch = max (v_len - v_len div 2) small_sort_scratch"

definition actual_required_scratch :: "nat \<Rightarrow> nat" where
  "actual_required_scratch v_len = v_len"

definition stable_partition_aborts :: "nat \<Rightarrow> nat \<Rightarrow> nat \<Rightarrow> bool" where
  "stable_partition_aborts v_len scratch_len pivot_pos \<longleftrightarrow> scratch_len < v_len \<or> pivot_pos \<ge> v_len"

definition main_100 :: "unit io" where
  "main_100 =
     (let SMALL_SORT_GENERAL_SCRATCH_LEN = 48; v_len = 49;
          documented = documented_min_scratch v_len SMALL_SORT_GENERAL_SCRATCH_LEN;
          required = actual_required_scratch v_len;
          aborts = stable_partition_aborts v_len documented 10
      in block
        [println [VNat v_len],
         println [VNat documented],
         println [VNat required],
         println [VBool aborts],
         assert_that (documented = 48),
         assert_that (required = 49),
         assert_that aborts])"

lemma documented_scratch_aborts:
  "stable_partition_aborts v (documented_min_scratch v small) p \<longleftrightarrow>
   (small < v \<and> 2 \<le> v) \<or> v \<le> p"
  by (auto simp: stable_partition_aborts_def documented_min_scratch_def)

section \<open>Socket address sizes (142)\<close>

text \<open>
  \<open>repr(C)\<close>: each field is placed at the next multiple of its alignment, and the size is
  rounded up to the largest alignment. A field is given by its size and alignment.
\<close>

definition round_up :: "nat \<Rightarrow> nat \<Rightarrow> nat" where
  "round_up n a = (n + (a - 1)) div a * a"

fun repr_C_end :: "nat \<Rightarrow> (nat \<times> nat) list \<Rightarrow> nat" where
  "repr_C_end off [] = off"
| "repr_C_end off ((sz, al) # fs) = repr_C_end (round_up off al + sz) fs"

definition repr_C_size :: "(nat \<times> nat) list \<Rightarrow> nat" where
  "repr_C_size fs = round_up (repr_C_end 0 fs) (foldr max (map snd fs) 1)"

definition SockaddrStorage :: "(nat \<times> nat) list" where
  "SockaddrStorage = [(1, 1), (1, 1), (2 * 1, 1), (3 * 4, 4)]"

definition SockaddrIn6 :: "(nat \<times> nat) list" where
  "SockaddrIn6 = [(1, 1), (1, 1), (2, 2), (4, 4), (16 * 1, 1), (4, 4)]"

definition main_142 :: "unit io" where
  "main_142 =
     (let storage = repr_C_size SockaddrStorage; in6 = repr_C_size SockaddrIn6
      in block
        [println [VNat storage],
         println [VNat in6],
         assert_that (storage < in6),
         println [VNat (in6 - storage)]])"

section \<open>Clamped slice prefix (181)\<close>

definition slice_get_to_inclusive :: "usize \<Rightarrow> 'a list \<Rightarrow> 'a list option" where
  "slice_get_to_inclusive e xs =
     (if e = - 1 then None
      else if unat e + 1 \<le> length xs then Some (take (unat e + 1) xs) else None)"

definition clamp_get :: "build \<Rightarrow> usize \<Rightarrow> u8 list \<Rightarrow> u8 list option run" where
  "clamp_get b e xs =
     bind_run (prim_sub b (word_of_nat (length xs)) 1) (\<lambda>m.
       Inr (slice_get_to_inclusive (min e m) xs))"

definition main_181 :: "build \<Rightarrow> unit io" where
  "main_181 b = lift_run (clamp_get b 0 []) (\<lambda>_. println [])"

text \<open>The clamped prefix of a slice (no Rust slice has \<open>2 ^ 63\<close> bytes): on a non-empty
  slice it is the first \<open>end + 1\<close> elements or the whole slice; on an empty one it panics
  with overflow checks and returns \<open>None\<close> without, never the empty prefix.\<close>

theorem clamp_get_spec:
  assumes "length xs < 2 ^ 63"
  shows "clamp_get b e xs =
    (if xs = [] then (if overflow_checks b then Inl SubOverflow else Inr None)
     else Inr (Some (take (unat e + 1) xs)))"
proof (cases "xs = []")
  case True
  then show ?thesis by (simp add: clamp_get_def prim_sub_def slice_get_to_inclusive_def min_def word_le_nat_alt unat_max_word word_less_nat_alt)
next
  case False
  then have n: "unat (word_of_nat (length xs) :: usize) = length xs" "0 < length xs"
    using assms by (simp_all add: unat_of_nat)
  then have m: "unat (word_of_nat (length xs) - 1 :: usize) = length xs - 1"
    "prim_sub b (word_of_nat (length xs) :: usize) 1 = Inr (word_of_nat (length xs) - 1)"
    using unat_sub_exact [of "1 :: usize" "word_of_nat (length xs)"] by (simp_all add: prim_sub_exact Suc_le_eq)
  let ?m = "min e (word_of_nat (length xs) - 1) :: usize"
  have u: "unat ?m = min (unat e) (length xs - 1)" using m(1) by (simp add: min_def word_le_nat_alt)
  then have "?m \<noteq> - 1" using assms n unat_max_word [where 'a = 64] by (auto simp: min_def split: if_splits)
  moreover have "unat ?m + 1 \<le> length xs" using u n by linarith
  moreover have "take (unat ?m + 1) xs = take (unat e + 1) xs" using u n by (auto simp: min_def)
  ultimately show ?thesis
    using False by (simp add: clamp_get_def m(2) slice_get_to_inclusive_def)
qed


theorem clamp_get_spec_witness:
  "clamp_get checked_build 1 [7, 8, 9] = Inr (Some [7, 8]) \<and> length [7, 8, 9 :: u8] < 2 ^ 63"
  using clamp_get_spec [of "[7, 8, 9]" checked_build 1] by simp

section \<open>Outcomes of the programs\<close>

lemma main_006_outcome: "exit_of main_006 = Exited 0"
  by (simp add: main_006_def buggy_len_def patched_len_def HEADER_SIZE_006_def saturating_sub_def exit_simps Let_def)

lemma main_008_outcome: "exit_of (main_008 b) = Exited 0"
  by (simp add: main_008_def buggy_008_def patched_008_eq HEADER_SIZE_008_def
      MAXIMUM_REPARSE_DATA_BUFFER_SIZE_def PATH_BUFFER_OFFSET_IN_SYMLINK_def exit_simps Let_def arith_ops)

lemma main_009_outcome: "exit_of (main_009 b) = Exited 0"
  by (simp add: main_009_def buggy_request_elems_def patched_check_eq NAME_OFFSET_def
      exit_simps Let_def arith_ops)

lemma main_090_outcome: "exit_of main_090 = Exited 0"
  by (simp add: main_090_def idx_in_vec_buggy_def idx_in_vec_fixed_def arith_ops exit_simps)

lemma main_091_outcome: "exit_of main_091 = Exited 0"
  by (simp add: main_091_def idx_in_vec_buggy_def idx_in_vec_fixed_def arith_ops exit_simps)

lemma main_100_outcome: "exit_of main_100 = Exited 0"
  by (simp add: main_100_def documented_min_scratch_def actual_required_scratch_def
      stable_partition_aborts_def exit_simps)

lemma main_142_outcome: "exit_of main_142 = Exited 0"
  by (simp add: main_142_def SockaddrStorage_def SockaddrIn6_def repr_C_size_def round_up_def exit_simps)

lemma main_181_outcome:
  "exit_of (main_181 b) = (if overflow_checks b then Panicked SubOverflow else Exited 0)"
  by (simp add: main_181_def clamp_get_def arith_ops exit_simps)

end
