(* ===== verification/Xous_Messages.thy ===== *)
theory Xous_Messages
  imports Prelude
begin

text \<open>
  Fixed-size messages exchanged with a server: the receive path of \<open>TcpStream::read\<close>
  (021, 022), the send path (023), service-name lookup (040), the accept response (042),
  the panic writer (121) and the DNS query (141). A message page is a byte list; the
  lengths the server supplies are natural numbers, since the code only compares them and
  slices with them. The interface of the lending side is a locale: what the receiver may
  assume of a page and its advertised length.
\<close>

section \<open>Receiving (021, 022)\<close>

text \<open>
  Both versions end in the same way: a slice of the page as long as the server says,
  zipped into the caller's buffer. The caller's buffer is returned with the count.
\<close>

definition copy_reply :: "u8 list \<Rightarrow> u8 list \<Rightarrow> nat \<Rightarrow> nat \<Rightarrow> (u8 list \<times> nat) run" where
  "copy_reply raw buf offset len =
     (if offset \<noteq> 0
      then bind_run (slice_to raw len) (\<lambda>src. Inr (zip_copy src buf, len))
      else Inr (buf, 0))"

definition buggy_read_or_peek_021 :: "u8 list \<Rightarrow> nat \<Rightarrow> nat \<Rightarrow> (u8 list \<times> nat) run" where
  "buggy_read_or_peek_021 buf lend_offset lend_length =
     copy_reply (replicate 4096 0) buf lend_offset lend_length"

definition main_021 :: "unit io" where
  "main_021 =
     (case buggy_read_or_peek_021 (replicate 64 0) 1 5000 of
        Inl _ \<Rightarrow> block [println [], exit_process 0]
      | Inr (_, n) \<Rightarrow> block [println [VNat n], exit_process 1])"

definition received_page_022 :: "nat \<Rightarrow> u8 list" where
  "received_page_022 lend_length =
     fold (\<lambda>i raw. raw[i := word_of_nat i + 0x10]) [0..<min lend_length 4096] (replicate 4096 0)"

definition buggy_read_or_peek_022 :: "u8 list \<Rightarrow> nat \<Rightarrow> nat \<Rightarrow> (u8 list \<times> nat) run" where
  "buggy_read_or_peek_022 buf lend_offset lend_length =
     copy_reply (received_page_022 lend_length) buf lend_offset lend_length"

definition main_022 :: "unit io" where
  "main_022 =
     lift_run (buggy_read_or_peek_022 (replicate 64 0) 1 2000) (\<lambda>(buf, n). block
       [println [VNat n, VNat (length buf)],
        if n > length buf then block [println [], exit_process 0]
        else block [println [], exit_process 1]])"

lemma fold_update_length: "length (fold (\<lambda>i raw. raw[i := f i]) is raw) = length raw"
  by (induction "is" arbitrary: raw) auto

lemma length_received_page_022 [simp]: "length (received_page_022 n) = 4096"
  by (simp add: received_page_022_def fold_update_length)

lemma fold_update_nth:
  "j < length raw \<Longrightarrow> fold (\<lambda>i raw. raw[i := f i]) [0..<n] raw ! j = (if j < n then f j else raw ! j)"
proof (induction n)
  case (Suc n)
  then show ?case
    by (cases "j = n") (auto simp: fold_update_length nth_list_update)
qed simp

lemma copy_reply_eq:
  "copy_reply raw buf off len =
     (if off = 0 then Inr (buf, 0)
      else if length raw < len then Inl SliceOutOfRange
      else Inr (take (length buf) (take len raw) @ drop len buf, len))"
  by (auto simp: copy_reply_def slice_to_def zip_copy_eq min_def)

text \<open>
  The contract of \<open>Read::read\<close>: the count \<open>n\<close> does not exceed the buffer, the first \<open>n\<close> bytes are
  those the source provided, and the bytes past the count are untouched.
\<close>

definition read_contract :: "u8 list \<Rightarrow> u8 list \<Rightarrow> u8 list \<Rightarrow> nat \<Rightarrow> bool" where
  "read_contract source buf buf' n \<longleftrightarrow>
     n \<le> length buf \<and> n \<le> length source \<and> buf' = take n source @ drop n buf"

text \<open>The bytes the server of 022 has for a reader: they count up from 16 and wrap at 256.\<close>

definition server_bytes :: "nat \<Rightarrow> u8 list" where
  "server_bytes n = map (\<lambda>i. word_of_nat ((i + 16) mod 256)) [0..<n]"

lemma length_server_bytes [simp]: "length (server_bytes n) = n"
  by (simp add: server_bytes_def)

lemma take_server_bytes: "take m (server_bytes n) = server_bytes (min m n)"
  by (simp add: server_bytes_def take_map min_def)

lemma page_byte: "(word_of_nat i :: u8) + 0x10 = word_of_nat ((i + 16) mod 256)"
proof -
  have "(word_of_nat ((i + 16) mod 256) :: u8) = word_of_nat (i + 16)"
    by (simp only: word_unat_eq_iff unat_of_nat) simp
  then show ?thesis by simp
qed

lemma received_page_filled:
  assumes "n \<le> 4096"
  shows "take n (received_page_022 n) = server_bytes n"
proof (rule nth_equalityI)
  fix i assume "i < length (take n (received_page_022 n))"
  then have i: "i < n" by simp
  with assms have "fold (\<lambda>i raw. raw[i := word_of_nat i + 0x10]) [0..<n] (replicate 4096 (0 :: u8)) ! i = word_of_nat i + 0x10"
    using fold_update_nth [of i "replicate 4096 0" "\<lambda>i. word_of_nat i + 0x10 :: u8" n] by simp
  then show "take n (received_page_022 n) ! i = server_bytes n ! i"
    using i assms by (simp add: received_page_022_def server_bytes_def page_byte min_absorb1 del: of_nat_add)
qed (use assms in simp)

lemma read_022_eq:
  "buggy_read_or_peek_022 buf off len =
     (if off = 0 then Inr (buf, 0)
      else if 4096 < len then Inl SliceOutOfRange
      else Inr (server_bytes (min len (length buf)) @ drop len buf, len))"
proof -
  have "take (length buf) (take len (received_page_022 len)) = server_bytes (min len (length buf))" if "len \<le> 4096"
    using received_page_filled [OF that] by (simp add: take_server_bytes min.commute)
  then show ?thesis by (simp add: buggy_read_or_peek_022_def copy_reply_eq)
qed

text \<open>C20. The receive path on every reply, byte by byte: nothing without an offset; a panic
  when the server's length exceeds the 4096-byte page; otherwise the buffer holds as many of
  the server's bytes, 16 and upwards modulo 256, as fit both it and the length, keeps its own
  bytes after them, and the count is the server's length. Returned to a caller of \<open>read\<close>,
  the result breaks the contract of \<open>read\<close> on what the server sent exactly when an accepted
  length exceeds the buffer.\<close>

theorem read_or_peek_contract:
  "buggy_read_or_peek_022 buf off len =
     (if off = 0 then Inr (buf, 0)
      else if 4096 < len then Inl SliceOutOfRange
      else Inr (map (\<lambda>i. if i < len then word_of_nat ((i + 16) mod 256) else buf ! i) [0..<length buf], len)) \<and>
   (case buggy_read_or_peek_022 buf off len of
      Inl e \<Rightarrow> off \<noteq> 0 \<and> 4096 < len
    | Inr (buf', n) \<Rightarrow>
        read_contract (server_bytes len) buf buf' n = (off = 0 \<or> len \<le> length buf))"
proof
  have "map (\<lambda>i. if i < len then word_of_nat ((i + 16) mod 256) else buf ! i) [0..<length buf] =
      server_bytes (min len (length buf)) @ drop len buf"
    by (rule nth_equalityI) (auto simp: server_bytes_def nth_append min_def)
  then show "buggy_read_or_peek_022 buf off len =
     (if off = 0 then Inr (buf, 0)
      else if 4096 < len then Inl SliceOutOfRange
      else Inr (map (\<lambda>i. if i < len then word_of_nat ((i + 16) mod 256) else buf ! i) [0..<length buf], len))"
    by (simp add: read_022_eq)
  show "case buggy_read_or_peek_022 buf off len of
      Inl e \<Rightarrow> off \<noteq> 0 \<and> 4096 < len
    | Inr (buf', n) \<Rightarrow>
        read_contract (server_bytes len) buf buf' n = (off = 0 \<or> len \<le> length buf)"
    by (auto simp: read_022_eq read_contract_def min_absorb1)
qed

section \<open>Sending (023)\<close>

definition buggy_write :: "u8 list \<Rightarrow> u32 \<Rightarrow> usize" where
  "buggy_write buf server_returned_count =
     (let raw = replicate 4096 0;
          buf_len = min (length raw) (length buf);
          raw = write_at 0 (take buf_len buf) raw;
          bytes = u32_to_le server_returned_count;
          raw = write_at 4 bytes raw
      in ucast (u32_from_le [raw ! 4, raw ! 5, raw ! 6, raw ! 7]))"

definition main_023 :: "unit io" where
  "main_023 =
     (let buf = replicate 100 0xAA;
          reported = buggy_write buf 0xFFFFFFFF;
          panic_check = slice_from buf (unat reported)
      in block
        [println [VNat (unat reported), VNat (length buf)],
         case panic_check of
           Inl _ \<Rightarrow> block [println [], exit_process 0]
         | Inr _ \<Rightarrow> block [println [], exit_process 1]])"

lemma buggy_write_eq: "buggy_write buf n = ucast n"
proof -
  define raw where "raw = write_at 0 (take (min 4096 (length buf)) buf) (replicate 4096 (0 :: u8))"
  have len: "length raw = 4096" by (simp add: raw_def)
  have l4: "length (u32_to_le n) = 4" by (simp add: u32_to_le_def)
  have r: "write_at 4 (u32_to_le n) raw ! (4 + j) = u32_to_le n ! j" if "j < 4" for j
    using nth_write_at [of 4 "u32_to_le n" raw j] that len l4 by simp
  have "[write_at 4 (u32_to_le n) raw ! 4, write_at 4 (u32_to_le n) raw ! 5,
      write_at 4 (u32_to_le n) raw ! 6, write_at 4 (u32_to_le n) raw ! 7] = u32_to_le n"
    using r [of 0] r [of 1] r [of 2] r [of 3] by (simp add: u32_to_le_def)
  then show ?thesis
    by (simp add: buggy_write_def Let_def u32_le_roundtrip flip: raw_def)
qed

text \<open>The send path reports the server's count, whatever was in the buffer: the four
  count bytes are written over the payload and read back. A caller that continues with
  \<open>buf[n..]\<close> panics exactly when the server claims more than the buffer holds.\<close>

theorem buggy_write_reports_server_count:
  "unat (buggy_write buf n) = unat n \<and>
   slice_from buf (unat (buggy_write buf n)) =
     (if unat n \<le> length buf then Inr (drop (unat n) buf) else Inl SliceOutOfRange)"
  by (simp add: buggy_write_eq unat_ucast_up slice_from_def)

section \<open>Service names (040)\<close>

definition NAME_MAX_LENGTH :: nat where
  "NAME_MAX_LENGTH = 64"

definition ConnectRequest_new :: "u8 list \<Rightarrow> u8 list" where
  "ConnectRequest_new name_bytes =
     (let data = replicate 128 0
      in zip_copy name_bytes (take NAME_MAX_LENGTH data) @ drop NAME_MAX_LENGTH data)"

definition buggy_connect_with_name_impl :: "u8 list \<Rightarrow> (u8 list \<times> nat) run" where
  "buggy_connect_with_name_impl name_bytes =
     (let request = ConnectRequest_new name_bytes;
          advertised_len = min (length name_bytes) NAME_MAX_LENGTH
      in bind_run (slice_to request advertised_len) (\<lambda>sent. Inr (sent, advertised_len)))"

text \<open>The bytes of \<open>"_DIFFERENT_SERVICE_SUFFIX"\<close>.\<close>

definition suffix_040 :: "u8 list" where
  "suffix_040 = map of_char ''_DIFFERENT_SERVICE_SUFFIX''"

definition main_040 :: "unit io" where
  "main_040 =
     (let prefix = replicate NAME_MAX_LENGTH 65; overlong = prefix @ suffix_040
      in lift_run (buggy_connect_with_name_impl overlong) (\<lambda>(sent, sent_len). block
        [assert_that (sent_len = NAME_MAX_LENGTH),
         assert_that (sent = prefix),
         assert_that (overlong \<noteq> sent),
         println [VNat (length overlong), VNat sent_len, VBool (sent = prefix), VBool (overlong = sent)],
         println []]))"

lemma buggy_connect_eq:
  "buggy_connect_with_name_impl name = Inr (take 64 name, min (length name) 64)"
  by (simp add: buggy_connect_with_name_impl_def ConnectRequest_new_def NAME_MAX_LENGTH_def slice_to_def zip_copy_eq Let_def min_def)

text \<open>A connection request never panics and carries exactly the first 64 bytes of the
  name, so two services are told apart if and only if those prefixes differ: the request
  determines the name for names up to 64 bytes and loses the rest of any longer one.\<close>

theorem connect_request_prefix:
  "buggy_connect_with_name_impl name = Inr (take 64 name, min (length name) 64) \<and>
   (buggy_connect_with_name_impl name = buggy_connect_with_name_impl name') =
     (take 64 name = take 64 name')"
  by (auto simp: buggy_connect_eq dest: arg_cong [of _ _ length])

section \<open>The accept response (042)\<close>

definition buggy_parse_accept :: "u8 list \<Rightarrow> nat \<Rightarrow> (u16 \<times> u8 list \<times> u16) option" where
  "buggy_parse_accept raw valid =
     (if raw ! 0 \<noteq> 0 then None
      else
        (let stream_fd = u16_from_le (raw ! 1) (raw ! 2);
             af = raw ! 3
         in if af \<noteq> 4 then None
            else
              (let ip = [raw ! 4, raw ! 5, raw ! 6, raw ! 7];
                   port = u16_from_le (raw ! 20) (raw ! 21)
               in Some (stream_fd, ip, port))))"

definition raw_042 :: "u8 list" where
  "raw_042 = ((((replicate 4096 0)[0 := 0])[1 := 0x42])[2 := 0x00])[3 := 4]"

definition main_042 :: "unit io" where
  "main_042 =
     (let valid = 4
      in lift_run (unwrap_option (buggy_parse_accept raw_042 valid)) (\<lambda>(fd, ip, port). block
        [println [VNat valid, VNat (unat fd), VList (map (VNat \<circ> unat) ip), VNat (unat port)],
         assert_that (ip = [0, 0, 0, 0]),
         assert_that (port = 0),
         assert_that (valid < 22),
         println [VNat valid]]))"

text \<open>The accept parser ignores how much of the page the server filled. On a page whose
  tail is zero after a response of \<open>k\<close> bytes, it accepts any successful IPv4 response
  from 4 bytes on, and reports port 0 up to 20 bytes and address 0.0.0.0 at 4.\<close>

theorem short_accept_response:
  assumes "length msg \<le> 4096"
    and "buggy_parse_accept (msg @ replicate (4096 - length msg) 0) valid = Some (fd, ip, port)"
  shows "4 \<le> length msg \<and> (if length msg \<le> 20 then port = 0 else True) \<and>
    (if length msg = 4 then ip = [0, 0, 0, 0] else True)"
  using assms
  by (auto simp: buggy_parse_accept_def nth_append u16_from_le_def Let_def split: if_splits)

theorem short_accept_response_witness:
  "buggy_parse_accept ([0, 0x42, 0, 4] @ replicate 4092 0) 4 = Some (0x42, [0, 0, 0, 0], 0) \<and>
   4 \<le> length [0, 0x42, 0, 4 :: u8]"
proof -
  let ?msg = "[0, 0x42, 0, 4] :: u8 list"
  have p: "buggy_parse_accept (?msg @ replicate (4096 - length ?msg) 0) 4 =
      Some (0x42, [0, 0, 0, 0], 0)"
    by (simp add: buggy_parse_accept_def u16_from_le_def nth_append)
  then show ?thesis
    using short_accept_response [OF _ p] by simp
qed

section \<open>Lending a page (121, 141)\<close>

text \<open>
  The sender fills a zeroed page of \<open>cap\<close> bytes and advertises a valid length; the
  receiver takes that prefix of the page. \<open>page_fill\<close> is what every sender here does,
  \<open>lend_contract\<close> adds the promise about the length, under which the receiver always
  reads exactly the sender's bytes that fit.
\<close>

locale page_fill =
  fixes lend :: "u8 list \<Rightarrow> u8 list \<times> nat" and cap :: nat
  assumes page_contents: "fst (lend s) = take cap s @ drop (length s) (replicate cap 0)"
begin

lemma page_length: "length (fst (lend s)) = cap"
  by (simp add: page_contents)

lemma receiver_panics_iff:
  "slice_to (fst (lend s)) (snd (lend s)) = Inl SliceOutOfRange \<longleftrightarrow> cap < snd (lend s)"
  by (auto simp: slice_to_def page_length)

end

locale lend_contract = page_fill +
  assumes advertised: "snd (lend s) = min (length s) cap"
begin

lemma receiver_reads: "slice_to (fst (lend s)) (snd (lend s)) = Inr (take cap s)"
  by (auto simp: slice_to_def page_contents advertised min_def)

end

definition vulnerable_lend_len :: "u8 list \<Rightarrow> u8 list \<Rightarrow> u8 list \<times> nat" where
  "vulnerable_lend_len s request = (zip_copy s request, length s)"

definition fixed_lend_len :: "u8 list \<Rightarrow> u8 list \<Rightarrow> u8 list \<times> nat" where
  "fixed_lend_len s request = (zip_copy s request, min (length s) (length request))"

definition main_121 :: "unit io" where
  "main_121 =
     (let s = replicate 8192 65;
          (request, advertised) = vulnerable_lend_len s (replicate 4096 0);
          actually_initialized = length request;
          (request2, fixed) = fixed_lend_len s (replicate 4096 0)
      in block
        [assert_that (advertised = 8192),
         assert_that (actually_initialized = 4096),
         assert_that (advertised > actually_initialized),
         println [VNat advertised, VNat actually_initialized],
         assert_that (fixed \<le> length request2),
         println [VNat fixed]])"

definition build_query :: "u8 list \<Rightarrow> u8 list \<times> nat" where
  "build_query query_bytes =
     (let buf = zip_copy query_bytes (replicate 4096 0); advertised_len = length query_bytes
      in (buf, advertised_len))"

definition main_141 :: "unit io" where
  "main_141 =
     (let query = replicate 8000 97; (buf, advertised) = build_query query; actual = length buf
      in block
        [println [VNat (length query)],
         println [VNat actual],
         println [VNat advertised],
         assert_that (advertised > actual),
         println [VNat advertised, VNat actual]])"

interpretation vulnerable: page_fill "\<lambda>s. vulnerable_lend_len s (replicate 4096 0)" 4096
  by unfold_locales (simp add: vulnerable_lend_len_def zip_copy_eq)

interpretation fixed: lend_contract "\<lambda>s. fixed_lend_len s (replicate 4096 0)" 4096
  by unfold_locales (simp_all add: fixed_lend_len_def zip_copy_eq)

interpretation dns_query: page_fill build_query 4096
  by unfold_locales (simp add: build_query_def zip_copy_eq)

text \<open>C23. What the receiver of a lent page sees. With the fixed length it always reads
  exactly the first 4096 bytes of the message; with the vulnerable panic writer and with
  the DNS query, whose advertised length is the message's own, taking the advertised
  prefix runs off the page exactly for messages over 4096 bytes.\<close>

theorem receiver_of_lent_page:
  "slice_to (fst (fixed_lend_len s (replicate 4096 0))) (snd (fixed_lend_len s (replicate 4096 0)))
     = Inr (take 4096 s) \<and>
   (slice_to (fst (vulnerable_lend_len s (replicate 4096 0)))
      (snd (vulnerable_lend_len s (replicate 4096 0))) = Inl SliceOutOfRange) = (4096 < length s) \<and>
   (slice_to (fst (build_query s)) (snd (build_query s)) = Inl SliceOutOfRange) = (4096 < length s)"
  using fixed.receiver_reads [of s] vulnerable.receiver_panics_iff [of s]
    dns_query.receiver_panics_iff [of s]
  by (simp add: vulnerable_lend_len_def build_query_def)

section \<open>Outcomes of the programs\<close>

lemma main_021_outcome: "exit_of main_021 = Exited 0"
  by (simp add: main_021_def buggy_read_or_peek_021_def copy_reply_eq exit_simps)

lemma main_022_outcome: "exit_of main_022 = Exited 0"
  by (simp add: main_022_def buggy_read_or_peek_022_def copy_reply_eq exit_simps)

lemma main_023_outcome: "exit_of main_023 = Exited 0"
  by (simp add: main_023_def buggy_write_eq slice_from_def exit_simps)

lemma main_040_outcome: "exit_of main_040 = Exited 0"
  by (simp add: main_040_def buggy_connect_eq exit_simps NAME_MAX_LENGTH_def suffix_040_def)

lemma main_042_outcome: "exit_of main_042 = Exited 0"
  by (simp add: main_042_def buggy_parse_accept_def raw_042_def exit_simps u16_from_le_def Let_def)

lemma main_121_outcome: "exit_of main_121 = Exited 0"
  by (simp add: main_121_def vulnerable_lend_len_def fixed_lend_len_def exit_simps)

lemma main_141_outcome: "exit_of main_141 = Exited 0"
  by (simp add: main_141_def build_query_def exit_simps Let_def)

end
