(* ===== verification/Calendar.thy ===== *)
theory Calendar
  imports Main
begin

text \<open>
  A Gregorian calendar that counts days year by year and month by month: the abstract
  specification of the UEFI time conversion. \<open>formula_days\<close> is the closed formula of the
  code over natural numbers; \<open>formula_days_eq\<close> shows that it counts the same days.
\<close>

section \<open>The calendar\<close>

definition leap :: "nat \<Rightarrow> bool" where
  "leap y \<longleftrightarrow> 4 dvd y \<and> \<not> 100 dvd y \<or> 400 dvd y"

definition year_len :: "nat \<Rightarrow> nat" where
  "year_len y = (if leap y then 366 else 365)"

definition month_len :: "nat \<Rightarrow> nat \<Rightarrow> nat" where
  "month_len y m = (if m = 2 then (if leap y then 29 else 28) else if m \<in> {4, 6, 9, 11} then 30 else 31)"

definition days_before_year :: "nat \<Rightarrow> nat" where
  "days_before_year y = (\<Sum>k\<in>{1900..<y}. year_len k)"

definition days_before_month :: "nat \<Rightarrow> nat \<Rightarrow> nat" where
  "days_before_month y m = (\<Sum>k\<in>{1..<m}. month_len y k)"

definition days_since_1900 :: "nat \<Rightarrow> nat \<Rightarrow> nat \<Rightarrow> nat" where
  "days_since_1900 y m d = days_before_year y + days_before_month y m + (d - 1)"

definition year_days :: "nat \<Rightarrow> nat" where
  "year_days Y = 365 * Y + (Y div 4 - Y div 100 + Y div 400)"

lemma div_step: "0 < k \<Longrightarrow> (n + 1) div k = n div k + (if k dvd n + 1 then 1 else 0 :: nat)"
  by (simp add: div_Suc dvd_eq_mod_eq_0)

lemma leap_step:
  fixes A B C Y :: nat
  assumes "B \<le> A" "q100 \<Longrightarrow> q4" "q400 \<Longrightarrow> q100" "Y' = Y + 1"
  shows "365 * Y' + (A + (if q4 then 1 else 0) - (B + (if q100 then 1 else 0)) + (C + (if q400 then 1 else 0)))
    = 365 * Y + (A - B + C) + (if q4 \<and> \<not> q100 \<or> q400 then 366 else 365)"
  using assms by (cases q4; cases q100; cases q400) auto

lemma year_days_step: "year_days (4800 + y) = year_days (4799 + y) + year_len y"
proof -
  have d: "4 dvd (4800 + y) \<longleftrightarrow> 4 dvd y" "100 dvd (4800 + y) \<longleftrightarrow> 100 dvd y" "400 dvd (4800 + y) \<longleftrightarrow> 400 dvd y"
    by (simp_all add: dvd_add_right_iff)
  have i: "100 dvd y \<Longrightarrow> 4 dvd y" "400 dvd y \<Longrightarrow> 100 dvd y"
    using dvd_trans [of 4 100 y] dvd_trans [of 100 400 y] by simp_all
  have e: "4799 + y + 1 = 4800 + y" by simp
  have le: "(4799 + y) div 100 \<le> (4799 + y) div 4" by (rule div_le_mono2) simp_all
  have s: "(4800 + y) div 4 = (4799 + y) div 4 + (if 4 dvd y then 1 else 0)"
    "(4800 + y) div 100 = (4799 + y) div 100 + (if 100 dvd y then 1 else 0)"
    "(4800 + y) div 400 = (4799 + y) div 400 + (if 400 dvd y then 1 else 0)"
    using div_step [of 4 "4799 + y"] div_step [of 100 "4799 + y"] div_step [of 400 "4799 + y"]
    by (simp_all only: d e)
  show ?thesis
    unfolding year_days_def s year_len_def leap_def by (rule leap_step) (use i le in simp_all)
qed

lemma days_before_year_eq: "1900 \<le> y \<Longrightarrow> year_days (4799 + y) + 306 = days_before_year y + 2447065"
proof (induction y rule: dec_induct)
  case base
  show ?case by (simp add: year_days_def days_before_year_def)
next
  case (step n)
  then show ?case
    using year_days_step [of n] by (simp add: days_before_year_def)
qed

lemma days_before_month_table:
  "days_before_month y (Suc 0) = 0" "days_before_month y 2 = 31"
  "days_before_month y 3 = 59 + (if leap y then 1 else 0)"
  "days_before_month y 4 = 90 + (if leap y then 1 else 0)"
  "days_before_month y 5 = 120 + (if leap y then 1 else 0)"
  "days_before_month y 6 = 151 + (if leap y then 1 else 0)"
  "days_before_month y 7 = 181 + (if leap y then 1 else 0)"
  "days_before_month y 8 = 212 + (if leap y then 1 else 0)"
  "days_before_month y 9 = 243 + (if leap y then 1 else 0)"
  "days_before_month y 10 = 273 + (if leap y then 1 else 0)"
  "days_before_month y 11 = 304 + (if leap y then 1 else 0)"
  "days_before_month y 12 = 334 + (if leap y then 1 else 0)"
  "days_before_month y 13 = year_len y"
  by (simp_all add: days_before_month_def month_len_def year_len_def numeral_eq_Suc)

lemma month_cases:
  assumes "1 \<le> m" "m \<le> (12 :: nat)"
  obtains "m = 1" | "m = 2" | "m = 3" | "m = 4" | "m = 5" | "m = 6" | "m = 7" | "m = 8"
    | "m = 9" | "m = 10" | "m = 11" | "m = 12"
  using assms by atomize_elim presburger

definition formula_days :: "nat \<Rightarrow> nat \<Rightarrow> nat \<Rightarrow> nat" where
  "formula_days y m d =
     year_days (if m < 3 then 4799 + y else 4800 + y) +
     ((if m < 3 then m + 9 else m - 3) * 62719 + 769) div 2048 + (d - 1)"

lemma formula_days_eq:
  assumes "1900 \<le> y" "1 \<le> m" "m \<le> 12"
  shows "formula_days y m d = days_since_1900 y m d + 2447065"
  using assms(2,3) days_before_year_eq [OF assms(1)] year_days_step [of y]
  by (cases rule: month_cases) (simp_all add: formula_days_def days_since_1900_def days_before_month_table year_len_def)


lemma days_before_month_Suc:
  "1 \<le> m \<Longrightarrow> days_before_month y (Suc m) = days_before_month y m + month_len y m"
  by (simp add: days_before_month_def)

lemma days_before_month_mono: "m \<le> m' \<Longrightarrow> days_before_month y m \<le> days_before_month y m'"
  unfolding days_before_month_def by (rule sum_mono2) auto

lemma days_before_year_Suc:
  "1900 \<le> y \<Longrightarrow> days_before_year (Suc y) = days_before_year y + year_len y"
  by (simp add: days_before_year_def)

lemma days_before_year_mono: "y \<le> y' \<Longrightarrow> days_before_year y \<le> days_before_year y'"
  unfolding days_before_year_def by (rule sum_mono2) auto

definition existing_date :: "nat \<Rightarrow> nat \<Rightarrow> nat \<Rightarrow> bool" where
  "existing_date y m d \<longleftrightarrow>
     1900 \<le> y \<and> 1 \<le> m \<and> m \<le> 12 \<and> 1 \<le> d \<and> d \<le> month_len y m"

text \<open>Existing dates are counted in their order, so no two of them share a day.\<close>

lemma days_in_month:
  assumes "existing_date y m d" "m < m'"
  shows "days_before_month y m + (d - 1) < days_before_month y m'"
proof -
  have "days_before_month y m + month_len y m \<le> days_before_month y m'"
    using days_before_month_Suc [of m y] days_before_month_mono [OF Suc_leI [OF assms(2)], of y] assms
    by (simp add: existing_date_def)
  moreover have "1 \<le> d" "d \<le> month_len y m" using assms by (simp_all add: existing_date_def)
  ultimately show ?thesis by linarith
qed

lemma days_since_1900_less:
  assumes e: "existing_date y m d" and e': "existing_date y' m' d'"
    and less: "y < y' \<or> y = y' \<and> (m < m' \<or> m = m' \<and> d < d')"
  shows "days_since_1900 y m d < days_since_1900 y' m' d'"
  using less
proof (elim disjE conjE)
  assume "y < y'"
  then have "days_before_year y + year_len y \<le> days_before_year y'"
    using days_before_year_mono [of "Suc y" y'] days_before_year_Suc [of y] e
    by (simp add: existing_date_def)
  moreover have "days_before_month y m + (d - 1) < year_len y"
    using days_in_month [OF e, of 13] e by (simp add: existing_date_def days_before_month_table)
  ultimately show ?thesis by (simp add: days_since_1900_def)
next
  assume "y = y'" "m < m'"
  then show ?thesis using days_in_month [OF e] by (simp add: days_since_1900_def trans_less_add1)
next
  assume "y = y'" "m = m'" "d < d'"
  moreover have "1 \<le> d" using e by (simp add: existing_date_def)
  ultimately have "d - 1 < d' - 1" by linarith
  then show ?thesis unfolding days_since_1900_def \<open>y = y'\<close> \<open>m = m'\<close> by linarith
qed

lemma days_since_1900_inject:
  assumes "existing_date y m d" "existing_date y' m' d'"
  shows "days_since_1900 y m d = days_since_1900 y' m' d' \<longleftrightarrow> y = y' \<and> m = m' \<and> d = d'"
  using days_since_1900_less [OF assms] days_since_1900_less [OF assms(2,1)]
  by (metis less_irrefl linorder_neqE_nat)

text \<open>A day beyond the end of its month is counted as a day of the next month.\<close>

lemma days_since_1900_roll:
  "1 \<le> m \<Longrightarrow> month_len y m < d \<Longrightarrow>
   days_since_1900 y m d = days_since_1900 y (Suc m) (d - month_len y m)"
  by (simp add: days_since_1900_def days_before_month_Suc)

end
