(* ===== verification/Uefi_Time.thy ===== *)
theory Uefi_Time
  imports Prelude Calendar
begin

text \<open>
  Conversion of a UEFI calendar time to seconds since 1900 (programs 143 and 144, which
  contain the same \<open>from_uefi\<close>). The conversion is modelled with every operator at its
  width, so that the absence of overflow is a theorem; its result is compared with a
  calendar that counts days year by year and month by month.
\<close>

section \<open>The program\<close>

definition SECS_IN_MINUTE :: u64 where
  "SECS_IN_MINUTE = 60"

definition SECS_IN_HOUR :: u64 where
  "SECS_IN_HOUR = SECS_IN_MINUTE * 60"

definition SECS_IN_DAY :: u64 where
  "SECS_IN_DAY = SECS_IN_HOUR * 24"

definition SYSTEMTIME_TIMEZONE :: i64 where
  "SYSTEMTIME_TIMEZONE = - 1440 * SECS_IN_MINUTE"

record uefi_time =
  year :: u16
  month :: u8
  day :: u8
  hour :: u8
  minute :: u8
  second :: u8
  nanosecond :: u32
  timezone :: i16

definition UNSPECIFIED_TIMEZONE :: i16 where
  "UNSPECIFIED_TIMEZONE = 0x07FF"

definition fields_ok :: "uefi_time \<Rightarrow> bool" where
  "fields_ok t \<longleftrightarrow>
     month t \<le> 12 \<and> month t \<noteq> 0 \<and> year t \<ge> 1900 \<and> year t \<le> 9999 \<and>
     day t \<le> 31 \<and> day t \<noteq> 0 \<and> second t < 60 \<and> minute t \<le> 60 \<and> hour t < 24 \<and>
     nanosecond t < 1000000000 \<and>
     ((sint (timezone t) \<le> 1440 \<and> sint (timezone t) \<ge> - 1440) \<or>
      timezone t = UNSPECIFIED_TIMEZONE)"

definition YEAR_BASE :: u32 where
  "YEAR_BASE = 4800"

definition overflowing_sub :: "u32 \<Rightarrow> u32 \<Rightarrow> u32 \<times> bool" where
  "overflowing_sub x y = (x - y, x < y)"

definition checked_add_signed :: "u64 \<Rightarrow> i64 \<Rightarrow> u64 option" where
  "checked_add_signed x y =
     (let s = int (unat x) + sint y in if 0 \<le> s \<and> s < 2 ^ 64 then Some (x + y) else None)"

definition days_of :: "build \<Rightarrow> uefi_time \<Rightarrow> u32 run" where
  "days_of b t =
     (let (m_adj, ovf) = overflowing_sub (ucast (month t)) 3;
          (carry, adjust) = (if ovf then (1, 12) else (0, 0)) in
      bind_run (prim_add b (ucast (year t)) YEAR_BASE) (\<lambda>y1.
      bind_run (prim_sub b y1 carry) (\<lambda>y_adj.
      bind_run (prim_mul b (m_adj + adjust) 62719) (\<lambda>m1.
      bind_run (prim_add b m1 769) (\<lambda>m2.
      let month_days = m2 div 2048 in
      bind_run (prim_sub b (y_adj div 4) (y_adj div 100)) (\<lambda>l1.
      bind_run (prim_add b l1 (y_adj div 400)) (\<lambda>leap_days.
      bind_run (prim_mul b y_adj 365) (\<lambda>d1.
      bind_run (prim_add b d1 leap_days) (\<lambda>d2.
      bind_run (prim_add b d2 month_days) (\<lambda>d3.
      bind_run (prim_sub b (ucast (day t)) 1) (\<lambda>d4.
      bind_run (prim_add b d3 d4) (\<lambda>d5.
      prim_sub b d5 2447065))))))))))))"

definition localtime_of :: "build \<Rightarrow> uefi_time \<Rightarrow> u32 \<Rightarrow> u64 run" where
  "localtime_of b t days =
     bind_run (prim_mul b (ucast days) SECS_IN_DAY) (\<lambda>s1.
     bind_run (prim_add b s1 (ucast (second t))) (\<lambda>s2.
     bind_run (prim_mul b (ucast (minute t)) SECS_IN_MINUTE) (\<lambda>s3.
     bind_run (prim_add b s2 s3) (\<lambda>s4.
     bind_run (prim_mul b (ucast (hour t)) SECS_IN_HOUR) (\<lambda>s5.
     prim_add b s4 s5)))))"

definition from_uefi :: "build \<Rightarrow> uefi_time \<Rightarrow> u64 option run" where
  "from_uefi b t =
     (if \<not> fields_ok t then Inr None
      else
        bind_run (days_of b t) (\<lambda>days.
        bind_run (localtime_of b t days) (\<lambda>localtime_epoch.
        bind_run (prim_smul b (scast (timezone t)) SECS_IN_MINUTE) (\<lambda>z.
        bind_run (prim_ssub b z SYSTEMTIME_TIMEZONE) (\<lambda>normalized_timezone.
        bind_run (unwrap_option (checked_add_signed localtime_epoch normalized_timezone)) (\<lambda>r.
        Inr (Some r)))))))"

definition bad_143 :: uefi_time where
  "bad_143 = \<lparr>year = 2025, month = 6, day = 1, hour = 0, minute = 60, second = 0,
     nanosecond = 0, timezone = 0\<rparr>"

definition main_143 :: "build \<Rightarrow> unit io" where
  "main_143 b =
     (let baseline = bad_143\<lparr>minute := 0, hour := 1\<rparr> in
      lift_run (bind_run (from_uefi b bad_143) unwrap_option) (\<lambda>bad_secs.
      lift_run (bind_run (from_uefi b baseline) unwrap_option) (\<lambda>base_secs. block
        [println [VNat (unat bad_secs)],
         println [VNat (unat base_secs)],
         assert_that (bad_secs = base_secs),
         println []])))"

definition nonexistent_144 :: uefi_time where
  "nonexistent_144 = \<lparr>year = 2025, month = 2, day = 31, hour = 0, minute = 0, second = 0,
     nanosecond = 0, timezone = 0\<rparr>"

definition main_144 :: "build \<Rightarrow> unit io" where
  "main_144 b =
     (let normalized = nonexistent_144\<lparr>month := 3, day := 3\<rparr> in
      lift_run (bind_run (from_uefi b nonexistent_144) unwrap_option) (\<lambda>bad.
      lift_run (bind_run (from_uefi b normalized) unwrap_option) (\<lambda>same. block
        [println [VNat (unat bad)],
         println [VNat (unat same)],
         assert_that (bad = same),
         println []])))"

section \<open>The conversion step by step\<close>

lemma fields_okD:
  assumes "fields_ok t"
  shows "1 \<le> unat (month t)" "unat (month t) \<le> 12" "1900 \<le> unat (year t)" "unat (year t) \<le> 9999"
    "1 \<le> unat (day t)" "unat (day t) \<le> 31" "unat (second t) < 60" "unat (minute t) \<le> 60"
    "unat (hour t) < 24" "- 1440 \<le> sint (timezone t)" "sint (timezone t) \<le> 2047"
proof -
  have "unat x \<noteq> 0" if "x \<noteq> 0" for x :: u8
    using that by (simp add: unat_eq_0)
  then have p: "1 \<le> unat x" if "x \<noteq> 0" for x :: u8
    using that by (simp add: Suc_le_eq)
  show "1 \<le> unat (month t)" "1 \<le> unat (day t)"
    using assms p [of "month t"] p [of "day t"] by (simp_all add: fields_ok_def)
  show "unat (month t) \<le> 12" "1900 \<le> unat (year t)" "unat (year t) \<le> 9999"
    "unat (day t) \<le> 31" "unat (second t) < 60" "unat (minute t) \<le> 60" "unat (hour t) < 24"
    using assms by (simp_all add: fields_ok_def word_le_nat_alt word_less_nat_alt)
  show "- 1440 \<le> sint (timezone t)" "sint (timezone t) \<le> 2047"
    using assms by (auto simp: fields_ok_def UNSPECIFIED_TIMEZONE_def)
qed

lemma year_days_bounds: "6699 \<le> Y \<Longrightarrow> Y \<le> 14799 \<Longrightarrow> year_days Y < 6000000"
proof -
  assume Y: "6699 \<le> Y" "Y \<le> 14799"
  have "Y div 4 \<le> 14799 div 4" "Y div 400 \<le> 14799 div 400" using Y by (simp_all only: div_le_mono)
  then show ?thesis using Y by (simp add: year_days_def)
qed

lemma month_adjust:
  fixes mo :: u8
  shows "unat (ucast mo - 3 + (if (ucast mo :: u32) < 3 then 12 else 0) :: u32) =
      (if unat mo < 3 then unat mo + 9 else unat mo - 3)"
    and "(ucast mo :: u32) < 3 \<longleftrightarrow> unat mo < 3"
proof -
  have um: "unat (ucast mo :: u32) = unat mo" by (simp add: unat_ucast_up)
  show lt3: "(ucast mo :: u32) < 3 \<longleftrightarrow> unat mo < 3" by (simp add: word_less_nat_alt um)
  show "unat (ucast mo - 3 + (if (ucast mo :: u32) < 3 then 12 else 0) :: u32) =
      (if unat mo < 3 then unat mo + 9 else unat mo - 3)"
  proof (cases "unat mo < 3")
    case True
    have "ucast mo - 3 + 12 = ucast mo + (9 :: u32)" by simp
    moreover have "unat (ucast mo + (9 :: u32)) = unat mo + 9"
      by (subst unat_add_exact) (use True in \<open>simp_all add: um\<close>)
    ultimately show ?thesis using True by (simp only: lt3 if_True)
  next
    case False
    then show ?thesis
      using um unat_sub_exact [of "3 :: u32" "ucast mo"] by (simp add: lt3)
  qed
qed

lemma year_part:
  fixes y_adj :: u32
  assumes y: "unat y_adj = Y" and Y: "Y \<le> 14799"
  obtains l1 l2 d1 d2 where
    "prim_sub b (y_adj div 4) (y_adj div 100) = Inr l1"
    "prim_add b l1 (y_adj div 400) = Inr l2"
    "prim_mul b y_adj 365 = Inr d1"
    "prim_add b d1 l2 = Inr d2" "unat d2 = year_days Y"
proof -
  have le: "Y div 100 \<le> Y div 4" by (rule div_le_mono2) simp_all
  have small: "Y div 4 \<le> 3699" "Y div 400 \<le> 36" using Y by simp_all
  obtain l1 where l1: "prim_sub b (y_adj div 4) (y_adj div 100) = Inr l1" "unat l1 = Y div 4 - Y div 100"
    by (rule prim_natE(2) [of "y_adj div 4" "Y div 4" "y_adj div 100" "Y div 100" b])
       (use le in \<open>simp_all add: unat_div_distrib y\<close>)
  obtain l2 where l2: "prim_add b l1 (y_adj div 400) = Inr l2" "unat l2 = Y div 4 - Y div 100 + Y div 400"
    by (rule prim_natE(1) [OF l1(2), of "y_adj div 400" "Y div 400" b])
       (use small in \<open>simp_all add: unat_div_distrib y\<close>)
  obtain d1 where d1: "prim_mul b y_adj 365 = Inr d1" "unat d1 = Y * 365"
    by (rule prim_natE(3) [OF y, of 365 365 b]) (use Y in simp_all)
  obtain d2 where d2: "prim_add b d1 l2 = Inr d2" "unat d2 = Y * 365 + (Y div 4 - Y div 100 + Y div 400)"
    by (rule prim_natE(1) [OF d1(2) l2(2), of b]) (use small Y in simp_all)
  show thesis
    by (rule that [OF l1(1) l2(1) d1(1) d2(1)]) (simp only: d2(2) year_days_def mult.commute [of Y])
qed

lemma days_of_eq:
  assumes ok: "fields_ok t"
  shows "\<exists>days. days_of b t = Inr days \<and> unat days < 4000000 \<and>
    unat days = days_since_1900 (unat (year t)) (unat (month t)) (unat (day t))"
proof -
  note f = fields_okD [OF ok]
  define y m d where "y = unat (year t)" and "m = unat (month t)" and "d = unat (day t)"
  note f = f [folded y_def m_def d_def]
  define M where "M = (if m < 3 then m + 9 else m - 3)"
  define Y where "Y = (if m < 3 then 4799 + y else 4800 + y)"
  define M' :: u32 where "M' = ucast (month t) - 3 + (if (ucast (month t) :: u32) < 3 then 12 else 0)"
  define carry :: u32 where "carry = (if (ucast (month t) :: u32) < 3 then 1 else 0)"
  have uM: "unat M' = M" by (simp only: M'_def M_def m_def month_adjust(1))
  have uc: "unat carry = (if m < 3 then 1 else 0)" by (simp add: carry_def m_def month_adjust(2))
  have M: "M \<le> 11" and Y: "6699 \<le> Y" "Y \<le> 14799" using f by (auto simp: M_def Y_def)
  have fd: "formula_days y m d = year_days Y + (M * 62719 + 769) div 2048 + (d - 1)"
    by (simp only: formula_days_def Y_def M_def)
  have Mb: "(M * 62719 + 769) div 2048 \<le> 337" using M by simp
  note yd = year_days_bounds [OF Y]
  have fdb: "formula_days y m d < 6000368" using fd yd Mb f(6) by linarith
  obtain y1 where y1: "prim_add b (ucast (year t)) YEAR_BASE = Inr y1" "unat y1 = y + 4800"
    by (rule prim_natE(1) [of "ucast (year t) :: u32" y YEAR_BASE 4800 b])
       (use f in \<open>simp_all add: y_def unat_ucast_up YEAR_BASE_def\<close>)
  obtain y_adj where y_adj: "prim_sub b y1 carry = Inr y_adj" "unat y_adj = Y"
    by (rule prim_natE(2) [OF y1(2) uc, of b]) (auto simp: Y_def split: if_splits)
  obtain m1 where m1: "prim_mul b M' 62719 = Inr m1" "unat m1 = M * 62719"
    by (rule prim_natE(3) [OF uM, of 62719 62719 b]) (use M in simp_all)
  obtain m2 where m2: "prim_add b m1 769 = Inr m2" "unat m2 = M * 62719 + 769"
    by (rule prim_natE(1) [OF m1(2), of 769 769 b]) (use M in simp_all)
  have md: "unat (m2 div 2048) = (M * 62719 + 769) div 2048" by (simp add: unat_div_distrib m2)
  obtain l1 l2 d1 d2 where yr: "prim_sub b (y_adj div 4) (y_adj div 100) = Inr l1"
    "prim_add b l1 (y_adj div 400) = Inr l2" "prim_mul b y_adj 365 = Inr d1"
    "prim_add b d1 l2 = Inr d2" and d2: "unat d2 = year_days Y"
    using year_part [OF y_adj(2) Y(2)] by blast
  obtain d3 where d3: "prim_add b d2 (m2 div 2048) = Inr d3"
      "unat d3 = year_days Y + (M * 62719 + 769) div 2048"
    by (rule prim_natE(1) [OF d2 md, of b]) (use Mb yd in simp_all)
  obtain d4 where d4: "prim_sub b (ucast (day t) :: u32) 1 = Inr d4" "unat d4 = d - 1"
    by (rule prim_natE(2) [of "ucast (day t) :: u32" d 1 1 b])
       (use f in \<open>simp_all add: d_def unat_ucast_up\<close>)
  obtain d5 where d5: "prim_add b d3 d4 = Inr d5" "unat d5 = formula_days y m d"
    by (rule prim_natE(1) [OF d3(2) d4(2), of b, folded fd]) (use fdb in simp)
  obtain days where days: "prim_sub b d5 2447065 = Inr days" "unat days = formula_days y m d - 2447065"
    by (rule prim_natE(2) [OF d5(2), of 2447065 2447065 b])
       (use f in \<open>simp_all add: formula_days_eq\<close>)
  have "days_of b t = Inr days"
    unfolding days_of_def overflowing_sub_def
    using y1 y_adj m1 m2 yr d3 d4 d5 days
    by (simp add: Let_def carry_def M'_def split: if_splits)
  moreover have "unat days = days_since_1900 y m d" using days f by (simp add: formula_days_eq)
  moreover have "unat days < 4000000" using days(2) fdb by linarith
  ultimately show ?thesis unfolding y_def m_def d_def by blast
qed

lemma localtime_of_eq:
  assumes ok: "fields_ok t" and days: "unat days < 4000000"
  shows "\<exists>l. localtime_of b t days = Inr l \<and>
    unat l = unat days * 86400 + unat (second t) + unat (minute t) * 60 + unat (hour t) * 3600"
proof -
  note f = fields_okD [OF ok]
  have c: "unat SECS_IN_MINUTE = 60" "unat SECS_IN_HOUR = 3600" "unat SECS_IN_DAY = 86400"
    by (simp_all add: SECS_IN_MINUTE_def SECS_IN_HOUR_def SECS_IN_DAY_def)
  have u: "unat (ucast x :: u64) = unat x" for x :: u8 by (simp add: unat_ucast_up)
  obtain s1 where s1: "prim_mul b (ucast days) SECS_IN_DAY = Inr s1" "unat s1 = unat days * 86400"
    by (rule prim_natE(3) [of "ucast days :: u64" "unat days" SECS_IN_DAY 86400 b])
       (use days c in \<open>simp_all add: unat_ucast_up\<close>)
  obtain s2 where s2: "prim_add b s1 (ucast (second t)) = Inr s2"
      "unat s2 = unat days * 86400 + unat (second t)"
    by (rule prim_natE(1) [OF s1(2) u, of "second t" b]) (use days f in simp_all)
  obtain s3 where s3: "prim_mul b (ucast (minute t)) SECS_IN_MINUTE = Inr s3" "unat s3 = unat (minute t) * 60"
    by (rule prim_natE(3) [OF u c(1), of "minute t" b]) (use f in simp_all)
  obtain s4 where s4: "prim_add b s2 s3 = Inr s4"
      "unat s4 = unat days * 86400 + unat (second t) + unat (minute t) * 60"
    by (rule prim_natE(1) [OF s2(2) s3(2), of b]) (use days f in simp_all)
  obtain s5 where s5: "prim_mul b (ucast (hour t)) SECS_IN_HOUR = Inr s5" "unat s5 = unat (hour t) * 3600"
    by (rule prim_natE(3) [OF u c(2), of "hour t" b]) (use f in simp_all)
  obtain l where "prim_add b s4 s5 = Inr l"
      "unat l = unat days * 86400 + unat (second t) + unat (minute t) * 60 + unat (hour t) * 3600"
    by (rule prim_natE(1) [OF s4(2) s5(2), of b]) (use days f in simp_all)
  then show ?thesis using s1 s2 s3 s4 s5 by (simp add: localtime_of_def)
qed

definition epoch :: "uefi_time \<Rightarrow> nat" where
  "epoch t =
     days_since_1900 (unat (year t)) (unat (month t)) (unat (day t)) * 86400 +
     unat (hour t) * 3600 + unat (minute t) * 60 + unat (second t) +
     nat ((sint (timezone t) + 1440) * 60)"

lemma timezone_seconds:
  assumes "- 1440 \<le> sint z" "sint (z :: i16) \<le> 2047"
  shows "prim_smul b (scast z) SECS_IN_MINUTE = Inr (scast z * SECS_IN_MINUTE)"
    and "prim_ssub b (scast z * SECS_IN_MINUTE) SYSTEMTIME_TIMEZONE =
      Inr (scast z * SECS_IN_MINUTE - SYSTEMTIME_TIMEZONE)"
    and "sint (scast z * SECS_IN_MINUTE - SYSTEMTIME_TIMEZONE) = (sint z + 1440) * 60"
proof -
  have z: "sint (scast z :: i64) = sint z" by (rule sint_scast_up) simp
  have c: "sint SECS_IN_MINUTE = 60" "sint SYSTEMTIME_TIMEZONE = - 86400"
    by (simp_all add: SECS_IN_MINUTE_def SYSTEMTIME_TIMEZONE_def)
  have fit: "fits_signed LENGTH(64) (sint (scast z :: i64) * sint SECS_IN_MINUTE)"
    using assms by (simp add: fits_signed_def z c)
  then have m: "sint (scast z * SECS_IN_MINUTE) = sint z * 60"
    using sint_exact(3) [OF fit] by (simp only: z c)
  have fit2: "fits_signed LENGTH(64) (sint (scast z * SECS_IN_MINUTE) - sint SYSTEMTIME_TIMEZONE)"
    using assms by (simp add: fits_signed_def m c)
  show "prim_smul b (scast z) SECS_IN_MINUTE = Inr (scast z * SECS_IN_MINUTE)"
    by (rule prim_signed_exact(3) [OF fit])
  show "prim_ssub b (scast z * SECS_IN_MINUTE) SYSTEMTIME_TIMEZONE =
      Inr (scast z * SECS_IN_MINUTE - SYSTEMTIME_TIMEZONE)"
    by (rule prim_signed_exact(2) [OF fit2])
  show "sint (scast z * SECS_IN_MINUTE - SYSTEMTIME_TIMEZONE) = (sint z + 1440) * 60"
    using sint_exact(2) [OF fit2] by (simp add: m c)
qed

lemma from_uefi_eq:
  "from_uefi b t = Inr (if fields_ok t then Some (word_of_nat (epoch t)) else None)"
proof (cases "fields_ok t")
  case True
  note f = fields_okD [OF True]
  obtain days where days: "days_of b t = Inr days" "unat days < 4000000"
      "unat days = days_since_1900 (unat (year t)) (unat (month t)) (unat (day t))"
    using days_of_eq [OF True, of b] by blast
  obtain l where l: "localtime_of b t days = Inr l"
      "unat l = unat days * 86400 + unat (second t) + unat (minute t) * 60 + unat (hour t) * 3600"
    using localtime_of_eq [OF True days(2), of b] by blast
  define k where "k = nat ((sint (timezone t) + 1440) * 60)"
  have k: "(sint (timezone t) + 1440) * 60 = int k" "k < 300000" using f by (simp_all add: k_def)
  have e: "epoch t = unat l + k"
    using days l by (simp add: epoch_def k_def)
  define z :: i64 where "z = scast (timezone t) * SECS_IN_MINUTE - SYSTEMTIME_TIMEZONE"
  note tz = timezone_seconds [OF f(10,11), folded z_def]
  have lt: "unat l < 400000000000" using l days f by simp
  have "z = word_of_int (sint z)" by (simp only: of_int_sint scast_id)
  also have "\<dots> = word_of_nat k" unfolding tz(3) k(1) by simp
  finally have zk: "z = word_of_nat k" .
  have "checked_add_signed l z = Some (l + z)"
  proof -
    have "sint z = int k" using tz(3) k(1) by simp
    moreover have "(2 :: int) ^ 64 = 18446744073709551616" by simp
    ultimately have "0 \<le> int (unat l) + sint z \<and> int (unat l) + sint z < 2 ^ 64"
      using k(2) lt by linarith
    then show ?thesis by (simp only: checked_add_signed_def Let_def if_True simp_thms)
  qed
  moreover have "l + z = word_of_nat (epoch t)" by (simp add: e zk)
  ultimately show ?thesis
    using True days l tz by (simp add: from_uefi_def flip: z_def)
next
  case False
  then show ?thesis by (simp add: from_uefi_def)
qed

lemma epoch_bound: "fields_ok t \<Longrightarrow> epoch t < 2 ^ 64"
proof -
  assume ok: "fields_ok t"
  note f = fields_okD [OF ok]
  obtain b :: build and days where "days_of b t = Inr days" "unat days < 4000000"
      "unat days = days_since_1900 (unat (year t)) (unat (month t)) (unat (day t))"
    using days_of_eq [OF ok] by blast
  then show ?thesis using f by (simp add: epoch_def)
qed

section \<open>What the conversion computes\<close>

definition existing_time :: "uefi_time \<Rightarrow> bool" where
  "existing_time t \<longleftrightarrow>
     existing_date (unat (year t)) (unat (month t)) (unat (day t)) \<and> minute t < 60"

lemma mixed_radix_eq:
  fixes a b c d :: nat
  assumes "b < k" "d < k"
  shows "a * k + b = c * k + d \<longleftrightarrow> a = c \<and> b = d"
proof
  assume e: "a * k + b = c * k + d"
  have "(a * k + b) div k = a" "(c * k + d) div k = c" "(a * k + b) mod k = b" "(c * k + d) mod k = d"
    using assms by simp_all
  then show "a = c \<and> b = d" by (simp add: e)
qed simp

lemma epoch_time_of_day:
  assumes "h * 3600 + mi * 60 + s < (86400 :: nat)" "h' * 3600 + mi' * 60 + s' < (86400 :: nat)"
    "mi < 60" "s < 60" "mi' < 60" "s' < 60"
  shows "D * 86400 + h * 3600 + mi * 60 + s + z = D' * 86400 + h' * 3600 + mi' * 60 + s' + z \<longleftrightarrow>
    D = D' \<and> h = h' \<and> mi = mi' \<and> s = s'"
proof -
  have "D * 86400 + h * 3600 + mi * 60 + s + z = D' * 86400 + h' * 3600 + mi' * 60 + s' + z \<longleftrightarrow>
      D * 86400 + (h * 3600 + mi * 60 + s) = D' * 86400 + (h' * 3600 + mi' * 60 + s')"
    by (simp only: add.assoc) linarith
  also have "\<dots> \<longleftrightarrow> D = D' \<and> h * 3600 + mi * 60 + s = h' * 3600 + mi' * 60 + s'"
    by (rule mixed_radix_eq) (use assms in simp_all)
  also have "h * 3600 + mi * 60 + s = h' * 3600 + mi' * 60 + s' \<longleftrightarrow>
      (h * 60 + mi) * 60 + s = (h' * 60 + mi') * 60 + s'" by presburger
  also have "\<dots> \<longleftrightarrow> (h = h' \<and> mi = mi') \<and> s = s'"
    using assms by (simp only: mixed_radix_eq)
  finally show ?thesis by blast
qed

definition roll_date :: "uefi_time \<Rightarrow> uefi_time" where
  "roll_date t = t\<lparr>month := month t + 1,
     day := day t - word_of_nat (month_len (unat (year t)) (unat (month t)))\<rparr>"

lemma fields_ok_nat:
  "fields_ok t \<longleftrightarrow>
    1 \<le> unat (month t) \<and> unat (month t) \<le> 12 \<and> 1900 \<le> unat (year t) \<and> unat (year t) \<le> 9999 \<and>
    1 \<le> unat (day t) \<and> unat (day t) \<le> 31 \<and> unat (second t) < 60 \<and> unat (minute t) \<le> 60 \<and>
    unat (hour t) < 24 \<and> nanosecond t < 1000000000 \<and>
    (sint (timezone t) \<le> 1440 \<and> - 1440 \<le> sint (timezone t) \<or> timezone t = UNSPECIFIED_TIMEZONE)"
proof -
  have p: "1 \<le> unat x \<longleftrightarrow> x \<noteq> 0" for x :: u8
    by (metis One_nat_def Suc_le_eq neq0_conv unat_eq_zero)
  show ?thesis
    unfolding p by (auto simp: fields_ok_def word_le_nat_alt word_less_nat_alt)
qed

lemma month_len_le: "month_len y m \<le> 31" "28 \<le> month_len y m"
  by (auto simp: month_len_def)

lemma roll_date_fields:
  assumes "fields_ok t" and d: "month_len (unat (year t)) (unat (month t)) < unat (day t)"
  shows "unat (month (roll_date t)) = Suc (unat (month t))"
    and "unat (day (roll_date t)) = unat (day t) - month_len (unat (year t)) (unat (month t))"
    and "fields_ok (roll_date t)"
    and "epoch (roll_date t) = epoch t"
proof -
  define len where "len = month_len (unat (year t)) (unat (month t))"
  note f = fields_okD [OF assms(1)]
  have "len \<le> 31" unfolding len_def by (rule month_len_le)
  then have ul: "unat (word_of_nat len :: u8) = len" by (simp only: unat_u8_of_nat) simp
  show m: "unat (month (roll_date t)) = Suc (unat (month t))"
    using f unat_add_exact [of "month t" 1] by (simp add: roll_date_def)
  show dd: "unat (day (roll_date t)) = unat (day t) - month_len (unat (year t)) (unat (month t))"
    using d unat_sub_exact [of "word_of_nat len :: u8" "day t"]
    by (simp add: roll_date_def ul flip: len_def)
  have "unat (month t) \<noteq> 12" using d f by (auto simp: month_len_def)
  then show "fields_ok (roll_date t)"
    using assms(1) d m dd month_len_le(2) [of "unat (year t)" "unat (month t)"]
    unfolding fields_ok_nat by (simp add: roll_date_def) linarith
  show "epoch (roll_date t) = epoch t"
    using days_since_1900_roll [OF f(1) d] m dd by (simp add: epoch_def) (simp add: roll_date_def)
qed

lemma minute_60_fields:
  assumes "fields_ok t" "minute t = 60" "hour t < 23"
  shows "fields_ok (t\<lparr>hour := hour t + 1, minute := 0\<rparr>)"
    and "epoch (t\<lparr>hour := hour t + 1, minute := 0\<rparr>) = epoch t"
proof -
  have "unat (hour t) < 23" using assms(3) by (simp add: word_less_nat_alt)
  then have h: "unat (hour t + 1) = Suc (unat (hour t))"
    using unat_add_exact [of "hour t" 1] by simp
  show "fields_ok (t\<lparr>hour := hour t + 1, minute := 0\<rparr>)"
    using assms(1) \<open>unat (hour t) < 23\<close> h unfolding fields_ok_nat by simp
  show "epoch (t\<lparr>hour := hour t + 1, minute := 0\<rparr>) = epoch t"
    using assms(2) h by (simp add: epoch_def)
qed

lemma word_of_nat_inject_u64:
  "m < 2 ^ 64 \<Longrightarrow> n < 2 ^ 64 \<Longrightarrow> (word_of_nat m :: u64) = word_of_nat n \<longleftrightarrow> m = n"
proof -
  assume "m < 2 ^ 64" "n < 2 ^ 64"
  then have "unat (word_of_nat m :: u64) = m" "unat (word_of_nat n :: u64) = n"
    unfolding unat_of_nat by simp_all
  then show ?thesis by metis
qed

text \<open>C1. The conversion returns \<open>None\<close> exactly on fields the check rejects and otherwise the
  calendar's count of seconds since 1900, offset by the timezone. It never panics in any
  build, no intermediate operation wraps, and the final \<open>unwrap\<close> cannot fail.\<close>

theorem from_uefi_spec:
  "from_uefi b t = Inr (if fields_ok t then Some (word_of_nat (epoch t)) else None) \<and>
   (if fields_ok t then epoch t < 2 ^ 64 else True)"
  using epoch_bound [of t] by (simp add: from_uefi_eq)

text \<open>C17. Two existing times (a day within its month, a minute below 60) in the same timezone
  convert to the same number only if they are the same second.\<close>

theorem existing_times_distinct:
  assumes "fields_ok t" "fields_ok t'" "existing_time t" "existing_time t'" "timezone t = timezone t'"
  shows "(from_uefi b t = from_uefi b t') =
    (year t = year t' \<and> month t = month t' \<and> day t = day t' \<and>
     hour t = hour t' \<and> minute t = minute t' \<and> second t = second t')"
proof -
  note f = fields_okD [OF assms(1)] and f' = fields_okD [OF assms(2)]
  have mi: "unat (minute t) < 60" "unat (minute t') < 60"
    using assms(3,4) by (simp_all add: existing_time_def word_less_nat_alt)
  have day: "h * 3600 + mi * 60 + s < (86400 :: nat)" if "h < 24" "mi < 60" "s < 60" for h mi s
    using that by linarith
  have "(from_uefi b t = from_uefi b t') = (epoch t = epoch t')"
    using assms(1,2) by (simp add: from_uefi_eq word_of_nat_inject_u64 [OF epoch_bound epoch_bound])
  also have "\<dots> = (days_since_1900 (unat (year t)) (unat (month t)) (unat (day t)) =
      days_since_1900 (unat (year t')) (unat (month t')) (unat (day t')) \<and>
      unat (hour t) = unat (hour t') \<and> unat (minute t) = unat (minute t') \<and>
      unat (second t) = unat (second t'))"
    unfolding epoch_def assms(5)
    by (rule epoch_time_of_day) (use f f' mi day in auto)
  also have "\<dots> = (year t = year t' \<and> month t = month t' \<and> day t = day t' \<and>
     hour t = hour t' \<and> minute t = minute t' \<and> second t = second t')"
    using assms(3,4) by (simp add: existing_time_def days_since_1900_inject word_unat_eq_iff conj_ac)
  finally show ?thesis .
qed

theorem existing_times_distinct_witness:
  "from_uefi checked_build (bad_143\<lparr>minute := 0, hour := 1\<rparr>) \<noteq> from_uefi checked_build (bad_143\<lparr>minute := 0, hour := 2\<rparr>)"
proof -
  have "fields_ok (bad_143\<lparr>minute := 0, hour := h\<rparr>) \<and> existing_time (bad_143\<lparr>minute := 0, hour := h\<rparr>)"
    if "h < 24" for h
    using that by (simp add: fields_ok_def existing_time_def existing_date_def month_len_def bad_143_def)
  then show ?thesis
    by (subst existing_times_distinct) (simp_all add: bad_143_def)
qed

text \<open>C26. Times that do not exist are accepted and collide with existing ones: a day past the
  end of its month with a day of the next month, and minute 60 with the next hour.\<close>

theorem nonexistent_times_collide:
  assumes "fields_ok t"
  shows "(if month_len (unat (year t)) (unat (month t)) < unat (day t)
          then from_uefi b t = from_uefi b (roll_date t) \<and> t \<noteq> roll_date t else True) \<and>
         (if minute t = 60 \<and> hour t < 23
          then from_uefi b t = from_uefi b (t\<lparr>hour := hour t + 1, minute := 0\<rparr>) else True)"
proof -
  have "t \<noteq> roll_date t" if "month_len (unat (year t)) (unat (month t)) < unat (day t)"
    using roll_date_fields(1) [OF assms that] by (metis n_not_Suc_n)
  then show ?thesis
    using assms by (simp add: from_uefi_eq roll_date_fields minute_60_fields)
qed

theorem nonexistent_times_collide_witness:
  "from_uefi checked_build nonexistent_144 = from_uefi checked_build (nonexistent_144\<lparr>month := 3, day := 3\<rparr>) \<and>
   from_uefi checked_build bad_143 = from_uefi checked_build (bad_143\<lparr>hour := 1, minute := 0\<rparr>)"
proof -
  have "fields_ok nonexistent_144" "fields_ok bad_143"
    by (simp_all add: fields_ok_def nonexistent_144_def bad_143_def)
  then show ?thesis
    using nonexistent_times_collide [of nonexistent_144 checked_build] nonexistent_times_collide [of bad_143 checked_build]
    by (simp add: nonexistent_144_def bad_143_def roll_date_def month_len_def leap_def)
qed

section \<open>Outcomes of the programs\<close>

lemma main_143_outcome: "exit_of (main_143 b) = Exited 0"
proof -
  have ok: "fields_ok bad_143" "fields_ok (bad_143\<lparr>minute := 0, hour := 1\<rparr>)"
    by (simp_all add: fields_ok_def bad_143_def)
  have "epoch bad_143 = epoch (bad_143\<lparr>minute := 0, hour := 1\<rparr>)"
    by (simp add: epoch_def bad_143_def)
  then show ?thesis using ok by (simp add: main_143_def from_uefi_eq exit_simps Let_def)
qed

lemma main_144_outcome: "exit_of (main_144 b) = Exited 0"
proof -
  have ok: "fields_ok nonexistent_144" "fields_ok (nonexistent_144\<lparr>month := 3, day := 3\<rparr>)"
    by (simp_all add: fields_ok_def nonexistent_144_def)
  have "epoch nonexistent_144 = epoch (nonexistent_144\<lparr>month := 3, day := 3\<rparr>)"
    by (simp add: epoch_def nonexistent_144_def days_since_1900_def days_before_month_table leap_def)
  then show ?thesis using ok by (simp add: main_144_def from_uefi_eq exit_simps Let_def)
qed

end
