(* ===== verification/Firmware.thy ===== *)
theory Firmware
  imports Prelude
begin

text \<open>
  Programs about the UEFI firmware interface: sizing and filling a handle buffer (004),
  walking a device path (005), completion tokens (007) and the public system-table pointer
  (060). Raw memory is explicit: a buffer is the list of its slots, a device path is the
  byte list of its object with pointers as offsets, and every read or pointer step outside
  the object is \<open>UndefinedBehavior\<close>.
\<close>

section \<open>Locating handles (004)\<close>

type_synonym handle = usize

text \<open>
  A firmware call takes the buffer (\<open>None\<close> for the null pointer) and the buffer length in
  bytes, and yields the new firmware state, the buffer's slots, the updated length and the
  status. The two routines are generic in the method they call.
\<close>

type_synonym 'u locate_fn =
  "'u \<Rightarrow> handle list option \<Rightarrow> usize \<Rightarrow> ('u \<times> handle list \<times> usize \<times> (unit, string) result) run"

record fake_uefi =
  call :: u32

definition size_of_handle :: usize where
  "size_of_handle = 8"

definition locate_handle :: "build \<Rightarrow> fake_uefi locate_fn" where
  "locate_handle b u buf buf_len =
     bind_run (prim_add b (call u) 1) (\<lambda>c.
       let u = u\<lparr>call := c\<rparr> in
       if c = 1 then
         Inr (u, case buf of None \<Rightarrow> [] | Some slots \<Rightarrow> slots, 4 * size_of_handle,
              Err ''buffer too small'')
       else if c = 2 then
         (case buf of
            Some (_ # slots) \<Rightarrow> Inr (u, 0x1 # slots, 1 * size_of_handle, Ok ())
          | _ \<Rightarrow> Inl UndefinedBehavior)
       else Inl Unreachable)"

text \<open>\<open>Vec::with_capacity\<close> of \<open>n\<close> elements of \<open>size\<close> bytes; \<open>set_len\<close> must stay inside it.\<close>

definition with_capacity :: "nat \<Rightarrow> nat \<Rightarrow> unit run" where
  "with_capacity bytes n = (if 2 ^ 63 - 1 < bytes * n then Inl CapacityOverflow else Inr ())"

definition set_len :: "nat \<Rightarrow> 'a list \<Rightarrow> 'a list run" where
  "set_len n slots = (if n \<le> length slots then Inr (take n slots) else Inl UndefinedBehavior)"

definition buggy_004 :: "'u locate_fn \<Rightarrow> 'u \<Rightarrow> handle list run" where
  "buggy_004 locate uefi =
     bind_run (locate uefi None 0) (\<lambda>(uefi, _, buf_len, _).
       let num_of_handles = unat (buf_len div size_of_handle) in
       bind_run (with_capacity 8 num_of_handles) (\<lambda>_.
         let buf = replicate num_of_handles 0xaaaaaaaaaaaaaaaa in
         bind_run (locate uefi (Some buf) buf_len) (\<lambda>(uefi, buf, buf_len, _).
           set_len num_of_handles buf)))"

definition patched_004 :: "'u locate_fn \<Rightarrow> 'u \<Rightarrow> handle list run" where
  "patched_004 locate uefi =
     bind_run (locate uefi None 0) (\<lambda>(uefi, _, buf_len, _).
       let num_of_handles = unat (buf_len div size_of_handle) in
       bind_run (with_capacity 8 num_of_handles) (\<lambda>_.
         let buf = replicate num_of_handles 0xaaaaaaaaaaaaaaaa in
         bind_run (locate uefi (Some buf) buf_len) (\<lambda>(uefi, buf, buf_len, _).
           if buf_len mod size_of_handle = 0
           then set_len (unat (buf_len div size_of_handle)) buf
           else Inl AssertFailed)))"

definition main_004 :: "build \<Rightarrow> unit io" where
  "main_004 b =
     lift_run (buggy_004 (locate_handle b) \<lparr>call = 0\<rparr>) (\<lambda>v.
     block [println (map (VNat \<circ> unat) v),
       lift_run (patched_004 (locate_handle b) \<lparr>call = 0\<rparr>) (\<lambda>v.
         println (map (VNat \<circ> unat) v))])"

text \<open>
  What a firmware promises over the two calls: the first reports a number of handles, the
  second writes the handles it still has, at most that many, to the front of the buffer and
  reports their number; the slots behind them keep their contents.
\<close>

locale locate_contract =
  fixes locate :: "'u locate_fn" and ready :: "'u \<Rightarrow> bool"
    and reported :: "'u \<Rightarrow> nat" and present :: "'u \<Rightarrow> handle list"
  assumes bounded: "ready u \<Longrightarrow> length (present u) \<le> reported u \<and> 8 * reported u < 2 ^ 63"
    and two_calls: "ready u \<Longrightarrow> \<exists>u' slots r. locate u None 0 =
        Inr (u', slots, word_of_nat (8 * reported u), r) \<and>
      (\<forall>buf. length buf = reported u \<longrightarrow>
        (\<exists>u'' r'. locate u' (Some buf) (word_of_nat (8 * reported u)) =
          Inr (u'', present u @ drop (length (present u)) buf,
               word_of_nat (8 * length (present u)), r')))"
begin

lemma word_count:
  assumes "8 * n < 2 ^ 63"
  shows "unat (word_of_nat (8 * n) div size_of_handle) = n"
    and "word_of_nat (8 * n) mod size_of_handle = 0"
proof -
  have u: "unat (word_of_nat (8 * n) :: usize) = 8 * n"
    unfolding unat_of_nat using assms by simp
  show "unat (word_of_nat (8 * n) div size_of_handle) = n"
    unfolding unat_div_distrib u by (simp add: size_of_handle_def)
  have "unat (word_of_nat (8 * n) mod size_of_handle) = 0"
    unfolding unat_mod_distrib u by (simp add: size_of_handle_def)
  then show "word_of_nat (8 * n) mod size_of_handle = 0" by (simp only: unat_eq_zero)
qed

lemma returned:
  assumes "ready u"
  shows "patched_004 locate u = Inr (present u)"
    and "buggy_004 locate u =
      Inr (present u @ replicate (reported u - length (present u)) 0xaaaaaaaaaaaaaaaa)"
proof -
  let ?buf = "replicate (reported u) (0xaaaaaaaaaaaaaaaa :: handle)"
  have b: "8 * reported u < 2 ^ 63" "8 * length (present u) < 2 ^ 63"
      "length (present u) \<le> reported u"
    using bounded [OF assms] by simp_all
  obtain u' slots r where one: "locate u None 0 = Inr (u', slots, word_of_nat (8 * reported u), r)"
    and two: "\<forall>buf. length buf = reported u \<longrightarrow>
        (\<exists>u'' r'. locate u' (Some buf) (word_of_nat (8 * reported u)) =
          Inr (u'', present u @ drop (length (present u)) buf,
               word_of_nat (8 * length (present u)), r'))"
    using two_calls [OF assms] by blast
  obtain u'' r' where two': "locate u' (Some ?buf) (word_of_nat (8 * reported u)) =
      Inr (u'', present u @ drop (length (present u)) ?buf, word_of_nat (8 * length (present u)), r')"
    using two [rule_format, of ?buf] by auto
  have cap: "with_capacity 8 (reported u) = Inr ()"
    using b(1) by (simp add: with_capacity_def)
  show "patched_004 locate u = Inr (present u)"
    unfolding patched_004_def
    by (simp only: one two' cap word_count [OF b(1)] word_count [OF b(2)] bind_run.simps
        prod.case Let_def set_len_def if_True simp_thms) (simp add: b)
  show "buggy_004 locate u =
      Inr (present u @ replicate (reported u - length (present u)) 0xaaaaaaaaaaaaaaaa)"
    unfolding buggy_004_def
    by (simp only: one two' cap word_count [OF b(1)] bind_run.simps prod.case Let_def set_len_def)
       (simp add: b)
qed

end

interpretation fake: locate_contract "locate_handle b" "\<lambda>u. u = \<lparr>call = 0\<rparr>" "\<lambda>_. 4" "\<lambda>_. [0x1]"
  for b :: build
proof unfold_locales
  fix u :: fake_uefi
  assume u: "u = \<lparr>call = 0\<rparr>"
  show "length [0x1 :: handle] \<le> 4 \<and> 8 * 4 < (2 :: nat) ^ 63" by simp
  have add: "prim_add b 0 1 = Inr (1 :: u32)" "prim_add b 1 1 = Inr (2 :: u32)"
    by (simp_all add: prim_add_def)
  have "locate_handle b \<lparr>call = 1\<rparr> (Some buf) (word_of_nat (8 * 4)) =
      Inr (\<lparr>call = 2\<rparr>, [0x1] @ drop (length [0x1 :: handle]) buf, word_of_nat (8 * length [0x1 :: handle]), Ok ())"
    if "length buf = 4" for buf
    using that by (cases buf) (simp_all add: locate_handle_def add size_of_handle_def)
  moreover have "locate_handle b u None 0 =
      Inr (\<lparr>call = 1\<rparr>, [], word_of_nat (8 * 4), Err ''buffer too small'')"
    by (simp add: locate_handle_def add u size_of_handle_def)
  ultimately show "\<exists>u' slots r. locate_handle b u None 0 = Inr (u', slots, word_of_nat (8 * 4), r) \<and>
      (\<forall>buf. length buf = 4 \<longrightarrow>
        (\<exists>u'' r'. locate_handle b u' (Some buf) (word_of_nat (8 * 4)) =
          Inr (u'', [0x1] @ drop (length [0x1 :: handle]) buf, word_of_nat (8 * length [0x1 :: handle]), r')))"
    by blast
qed

text \<open>C34. With every firmware that keeps the contract of the two calls, the patched routine
  returns exactly the handles the second call wrote, and the buggy one appends the unwritten
  slots up to the count of the first call.\<close>

theorem located_handles:
  assumes "locate_contract locate ready reported present" "ready u"
  shows "patched_004 locate u = Inr (present u) \<and>
    buggy_004 locate u =
      Inr (present u @ replicate (reported u - length (present u)) 0xaaaaaaaaaaaaaaaa)"
  using locate_contract.returned [OF assms] by blast

theorem located_handles_witness:
  "patched_004 (locate_handle checked_build) \<lparr>call = 0\<rparr> = Inr [0x1] \<and>
   buggy_004 (locate_handle checked_build) \<lparr>call = 0\<rparr> = Inr (0x1 # replicate 3 0xaaaaaaaaaaaaaaaa)"
  using located_handles [OF fake.locate_contract_axioms [of checked_build], of "\<lparr>call = 0\<rparr>"] by simp

lemma main_004_outcome: "exit_of (main_004 b) = Exited 0"
  using fake.returned [of "\<lparr>call = 0\<rparr>" b] by (simp add: main_004_def exit_simps)

section \<open>Walking a device path (005)\<close>

text \<open>
  The memory is the byte list of the object that holds the path, a pointer an offset into
  it. Stepping past the end of the object and reading outside it are \<open>UndefinedBehavior\<close>.
  A node is its type, its subtype and a two-byte length that counts the whole node.
\<close>

definition END_TYPE :: u8 where
  "END_TYPE = 0x7f"

definition HEADER_SIZE_005 :: u16 where
  "HEADER_SIZE_005 = 4"

definition read_byte :: "u8 list \<Rightarrow> nat \<Rightarrow> u8 run" where
  "read_byte mem p = (if p < length mem then Inr (mem ! p) else Inl UndefinedBehavior)"

definition node_length :: "u8 list \<Rightarrow> nat \<Rightarrow> u16 run" where
  "node_length mem p =
     bind_run (read_byte mem (p + 2)) (\<lambda>lo.
     bind_run (read_byte mem (p + 3)) (\<lambda>hi. Inr (u16_from_le lo hi)))"

definition is_end :: "u8 list \<Rightarrow> nat \<Rightarrow> bool run" where
  "is_end mem p = bind_run (read_byte mem p) (\<lambda>t. Inr (t = END_TYPE))"

definition next_node :: "u8 list \<Rightarrow> nat \<Rightarrow> nat run" where
  "next_node mem p =
     bind_run (node_length mem p) (\<lambda>len.
       if p + unat len \<le> length mem then Inr (p + unat len) else Inl UndefinedBehavior)"

text \<open>The test at the head of both loops, without and with the check of the length.\<close>

definition buggy_stop :: "u8 list \<Rightarrow> nat \<Rightarrow> bool run" where
  "buggy_stop mem p = is_end mem p"

definition patched_stop :: "u8 list \<Rightarrow> nat \<Rightarrow> bool run" where
  "patched_stop mem p =
     bind_run (is_end mem p) (\<lambda>e.
       if e then Inr True
       else bind_run (node_length mem p) (\<lambda>len. Inr (len < HEADER_SIZE_005)))"

definition cursor :: "(u8 list \<Rightarrow> nat \<Rightarrow> bool run) \<Rightarrow> u8 list \<Rightarrow> nat \<Rightarrow> nat option run" where
  "cursor stop mem p = bind_run (stop mem p) (\<lambda>e. Inr (if e then None else Some p))"

text \<open>
  The loop of both iterators. With \<open>cap = usize::MAX\<close> and wrapping arithmetic the count
  never exceeds the cap, so the loop need not end: it is a partial function, and not
  returning is \<open>None\<close>.
\<close>

partial_function (option) iter_loop ::
  "build \<Rightarrow> (u8 list \<Rightarrow> nat \<Rightarrow> bool run) \<Rightarrow> u8 list \<Rightarrow> usize \<Rightarrow> nat option \<Rightarrow> usize \<Rightarrow> usize run option" where
  "iter_loop b stop mem cap cur count =
     (case cur of
        None \<Rightarrow> Some (Inr count)
      | Some n \<Rightarrow>
          (case prim_add b count 1 of
             Inl e \<Rightarrow> Some (Inl e)
           | Inr count \<Rightarrow>
               if cap < count then Some (Inr count)
               else (case bind_run (next_node mem n) (cursor stop mem) of
                       Inl e \<Rightarrow> Some (Inl e)
                     | Inr cur \<Rightarrow> iter_loop b stop mem cap cur count)))"

definition iter_from ::
  "build \<Rightarrow> (u8 list \<Rightarrow> nat \<Rightarrow> bool run) \<Rightarrow> u8 list \<Rightarrow> nat \<Rightarrow> usize \<Rightarrow> usize run option" where
  "iter_from b stop mem start cap =
     (case cursor stop mem start of
        Inl e \<Rightarrow> Some (Inl e)
      | Inr cur \<Rightarrow> iter_loop b stop mem cap cur 0)"

definition buggy_iter :: "build \<Rightarrow> u8 list \<Rightarrow> nat \<Rightarrow> usize \<Rightarrow> usize run option" where
  "buggy_iter b mem start cap = iter_from b buggy_stop mem start cap"

definition patched_iter :: "build \<Rightarrow> u8 list \<Rightarrow> nat \<Rightarrow> usize \<Rightarrow> usize run option" where
  "patched_iter b mem start cap = iter_from b patched_stop mem start cap"

definition bad_005 :: "u8 list" where
  "bad_005 = [0x01, 0x01, 0, 0]"

text \<open>\<open>None\<close> is a program that does not end.\<close>

definition main_005 :: "build \<Rightarrow> unit io option" where
  "main_005 b =
     (case buggy_iter b bad_005 0 1000000 of
        None \<Rightarrow> None
      | Some r \<Rightarrow> (case patched_iter b bad_005 0 1000000 of
          None \<Rightarrow> None
        | Some r' \<Rightarrow> Some (lift_run r (\<lambda>buggy_count. block
            [println [VNat (unat buggy_count)],
             assert_that (buggy_count > 1000000),
             lift_run r' (\<lambda>patched_count. block
               [println [VNat (unat patched_count)],
                assert_that (patched_count = 0)])]))))"

subsection \<open>The buggy iterator stalls\<close>

lemma prim_add_count:
  fixes count :: usize
  assumes "count < - 1"
  shows "prim_add b count 1 = Inr (count + 1)" "unat (count + 1) = Suc (unat count)"
proof -
  have "unat count < 2 ^ 64 - 1"
    using assms by (simp add: word_less_nat_alt unat_max_word)
  then have "unat count + unat (1 :: usize) < 2 ^ LENGTH(64)" by simp
  then show "prim_add b count 1 = Inr (count + 1)" "unat (count + 1) = Suc (unat count)"
    using prim_nat(1) [of count 1 b] by simp_all
qed

lemma stalled_loop:
  assumes stall: "bind_run (next_node mem n) (cursor stop mem) = Inr (Some n)"
    and cap: "cap < - 1"
  shows "count \<le> cap \<Longrightarrow> iter_loop b stop mem cap (Some n) count = Some (Inr (cap + 1))"
proof (induction "unat cap - unat count" arbitrary: count)
  case 0
  then have "count = cap" by (simp add: word_le_nat_alt word_unat_eq_iff)
  moreover have "cap < cap + 1"
    using prim_add_count(2) [OF cap] by (simp add: word_less_nat_alt)
  ultimately show ?case
    by (subst iter_loop.simps) (simp add: prim_add_count [OF cap])
next
  case (Suc k)
  then have lt: "count < cap" by (simp add: word_less_nat_alt)
  then have c: "count < - 1" using cap by simp
  have "count + 1 \<le> cap" using lt prim_add_count(2) [OF c] by (simp add: word_le_nat_alt word_less_nat_alt)
  moreover have "k = unat cap - unat (count + 1)"
    using Suc.hyps(2) prim_add_count(2) [OF c] by simp
  ultimately have "iter_loop b stop mem cap (Some n) (count + 1) = Some (Inr (cap + 1))"
    using Suc.hyps(1) by blast
  moreover have "(cap < count + 1) = False" using \<open>count + 1 \<le> cap\<close> by (simp add: not_less)
  ultimately show ?case
    by (subst iter_loop.simps) (simp only: prim_add_count [OF c] stall option.case sum.case if_False)
qed

text \<open>At the largest cap the count never exceeds it: it overflows, or wraps for ever.\<close>

lemma stalled_loop_overflows:
  assumes stall: "bind_run (next_node mem n) (cursor stop mem) = Inr (Some n)"
    and "overflow_checks b"
  shows "iter_loop b stop mem (- 1) (Some n) count = Some (Inl AddOverflow)"
proof (induction "2 ^ 64 - 1 - unat count" arbitrary: count)
  case 0
  then have "2 ^ 64 \<le> unat count + 1" by simp
  then have "prim_add b count 1 = Inl AddOverflow" using assms(2) by (simp add: prim_add_def)
  then show ?case by (subst iter_loop.simps) simp
next
  case (Suc k)
  then have c: "count < - 1" by (simp add: word_less_nat_alt unat_max_word)
  have "k = 2 ^ 64 - 1 - unat (count + 1)"
    using Suc.hyps(2) prim_add_count(2) [OF c] by simp
  then have "iter_loop b stop mem (- 1) (Some n) (count + 1) = Some (Inl AddOverflow)"
    using Suc.hyps(1) by blast
  then show ?case
    by (subst iter_loop.simps) (simp add: prim_add_count(1) [OF c] stall not_less)
qed

lemma stalled_loop_wraps:
  assumes stall: "bind_run (next_node mem n) (cursor stop mem) = Inr (Some n)"
    and "\<not> overflow_checks b"
  shows "iter_loop b stop mem (- 1) (Some n) count = None"
proof -
  let ?stalled = "\<lambda>b' stop' mem' (cap :: usize) cur (count :: usize) (r :: usize run).
    \<not> (b' = b \<and> stop' = stop \<and> mem' = mem \<and> cap = - 1 \<and> cur = Some n)"
  have "?stalled b stop mem (- 1) (Some n) count r"
    if "iter_loop b stop mem (- 1) (Some n) count = Some r" for r
  proof (rule iter_loop.raw_induct [where P = ?stalled, OF _ that])
    fix f b' stop' mem' cap cur count r
    assume IH: "\<And>b' stop' mem' cap cur count r. f b' stop' mem' cap cur count = Some r \<Longrightarrow>
        ?stalled b' stop' mem' cap cur count r"
      and eq: "(case cur of None \<Rightarrow> Some (Inr count)
        | Some n \<Rightarrow>
            (case prim_add b' count 1 of Inl e \<Rightarrow> Some (Inl e)
             | Inr count \<Rightarrow>
                 if cap < count then Some (Inr count)
                 else (case bind_run (next_node mem' n) (cursor stop' mem') of Inl e \<Rightarrow> Some (Inl e)
                       | Inr cur \<Rightarrow> f b' stop' mem' cap cur count))) = Some r"
    show "?stalled b' stop' mem' cap cur count r"
    proof
      assume "b' = b \<and> stop' = stop \<and> mem' = mem \<and> cap = - 1 \<and> cur = Some n"
      with eq assms(2) have "f b stop mem (- 1) (Some n) (count + 1) = Some r"
        by (simp add: prim_add_def stall not_less)
      then show False using IH by blast
    qed
  qed
  then show ?thesis by (cases "iter_loop b stop mem (- 1) (Some n) count") auto
qed

lemma zero_length_stalls:
  assumes "p + 3 < length mem" "mem ! p \<noteq> END_TYPE" "mem ! (p + 2) = 0" "mem ! (p + 3) = 0"
  shows "bind_run (next_node mem p) (cursor buggy_stop mem) = Inr (Some p)"
    and "cursor buggy_stop mem p = Inr (Some p)"
    and "cursor patched_stop mem p = Inr None"
  using assms
  by (simp_all add: next_node_def node_length_def read_byte_def u16_from_le_def cursor_def
      buggy_stop_def patched_stop_def is_end_def HEADER_SIZE_005_def)

text \<open>C31. On a node of length zero that is no end node, the unpatched iterator runs into every
  cap below the largest; with \<open>usize::MAX\<close> its count overflows, which is a panic where overflow
  is checked and a loop without end where it is not. The patched one stops before the first
  node and yields none, whatever the cap.\<close>

theorem zero_length_node:
  assumes "p + 3 < length mem" "mem ! p \<noteq> END_TYPE" "mem ! (p + 2) = 0" "mem ! (p + 3) = 0"
  shows "buggy_iter b mem p cap =
      (if cap < - 1 then Some (Inr (cap + 1))
       else if overflow_checks b then Some (Inl AddOverflow) else None) \<and>
    patched_iter b mem p cap = Some (Inr 0)"
proof
  note z = zero_length_stalls [OF assms]
  have "cap = - 1" if "\<not> cap < - 1" using that by (simp add: not_less word_order.extremum_unique)
  then show "buggy_iter b mem p cap =
      (if cap < - 1 then Some (Inr (cap + 1))
       else if overflow_checks b then Some (Inl AddOverflow) else None)"
    using stalled_loop [OF z(1), of cap 0 b] stalled_loop_overflows [OF z(1)] stalled_loop_wraps [OF z(1)]
    by (auto simp: buggy_iter_def iter_from_def z)
  show "patched_iter b mem p cap = Some (Inr 0)"
    by (simp add: patched_iter_def iter_from_def z iter_loop.simps)
qed

theorem zero_length_node_witness:
  "buggy_iter checked_build bad_005 0 1000000 = Some (Inr 1000001) \<and>
   buggy_iter checked_build bad_005 0 (- 1) = Some (Inl AddOverflow) \<and>
   patched_iter checked_build bad_005 0 1000000 = Some (Inr 0)"
  using zero_length_node [of 0 bad_005 checked_build] by (simp add: bad_005_def END_TYPE_def checked_build_def)

subsection \<open>The patched iterator ends\<close>

lemma patched_cursor:
  assumes "cursor patched_stop mem p = Inr cur"
  shows "cur = None \<or>
    cur = Some p \<and> p + 4 \<le> length mem \<and> (\<exists>len. node_length mem p = Inr len \<and> 4 \<le> unat len)"
  using assms
  by (auto simp: cursor_def patched_stop_def bind_run_Inr_iff HEADER_SIZE_005_def word_less_nat_alt
      node_length_def read_byte_def split: if_splits)

lemma patched_loop_ends:
  assumes mem: "length mem < 2 ^ 63"
    and cur: "\<And>n. cur = Some n \<Longrightarrow>
      start \<le> n \<and> n + 4 \<le> length mem \<and> 4 * unat count \<le> n - start \<and>
      (\<exists>len. node_length mem n = Inr len \<and> 4 \<le> unat len)"
    and count: "4 * unat (count :: usize) \<le> length mem - start"
  shows "\<exists>r. iter_loop b patched_stop mem cap cur count = Some r \<and>
    (case r of Inl e \<Rightarrow> e = UndefinedBehavior | Inr n \<Rightarrow> 4 * unat n \<le> length mem - start)"
  using cur count
proof (induction "case cur of None \<Rightarrow> 0 | Some n \<Rightarrow> length mem - n" arbitrary: cur count rule: less_induct)
  case less
  show ?case
  proof (cases cur)
    case None
    then show ?thesis using less.prems(2) by (simp add: iter_loop.simps)
  next
    case (Some n)
    then obtain len where n: "start \<le> n" "n + 4 \<le> length mem" "4 * unat count \<le> n - start"
        "node_length mem n = Inr len" "4 \<le> unat len"
      using less.prems(1) by blast
    have "unat count < unat (- 1 :: usize)"
      using n mem by (simp add: unat_max_word)
    then have "count < - 1" by (simp add: word_less_nat_alt)
    note c = prim_add_count [OF this]
    have c4: "4 * unat (count + 1) \<le> n + 4 - start" using c(2) n by simp
    then have c5: "4 * unat (count + 1) \<le> length mem - start" using n by linarith
    show ?thesis
    proof (cases "bind_run (next_node mem n) (cursor patched_stop mem)")
      case (Inl e)
      then have "e = UndefinedBehavior"
        using n(4) by (auto simp: next_node_def cursor_def patched_stop_def is_end_def read_byte_def
            node_length_def split: if_splits)
      then show ?thesis using Inl Some c c5 by (subst iter_loop.simps) simp
    next
      case (Inr cur')
      then have step: "n + unat len \<le> length mem" "cursor patched_stop mem (n + unat len) = Inr cur'"
        using n(4) by (simp_all add: next_node_def bind_run_Inr_iff split: if_splits)
      have rec: "\<exists>r. iter_loop b patched_stop mem cap cur' (count + 1) = Some r \<and>
        (case r of Inl e \<Rightarrow> e = UndefinedBehavior | Inr n \<Rightarrow> 4 * unat n \<le> length mem - start)"
      proof (rule less.hyps)
        show "(case cur' of None \<Rightarrow> 0 | Some n \<Rightarrow> length mem - n) <
            (case cur of None \<Rightarrow> 0 | Some n \<Rightarrow> length mem - n)"
          using patched_cursor [OF step(2)] n Some by auto
        show "start \<le> n' \<and> n' + 4 \<le> length mem \<and> 4 * unat (count + 1) \<le> n' - start \<and>
            (\<exists>len. node_length mem n' = Inr len \<and> 4 \<le> unat len)" if "cur' = Some n'" for n'
          using patched_cursor [OF step(2)] that n c4 by auto
        show "4 * unat (count + 1) \<le> length mem - start" by (rule c5)
      qed
      show ?thesis using rec c5 Inr Some c by (subst iter_loop.simps) simp
    qed
  qed
qed

text \<open>C2. The patched iterator ends on every byte object and every cap, in every build, after
  at most one node for each four bytes from the start; the cap plays no part. The only other
  outcome is a read outside the object, when the path has no end node in it.\<close>

theorem patched_iter_ends:
  assumes "length mem < 2 ^ 63"
  shows "\<exists>r. patched_iter b mem start cap = Some r \<and>
    (case r of Inl e \<Rightarrow> e = UndefinedBehavior | Inr n \<Rightarrow> 4 * unat n \<le> length mem - start)"
proof (cases "cursor patched_stop mem start")
  case (Inl e)
  then have "e = UndefinedBehavior"
    by (auto simp: cursor_def patched_stop_def is_end_def read_byte_def node_length_def split: if_splits)
  then show ?thesis using Inl by (simp add: patched_iter_def iter_from_def)
next
  case (Inr cur)
  have "\<exists>r. iter_loop b patched_stop mem cap cur 0 = Some r \<and>
    (case r of Inl e \<Rightarrow> e = UndefinedBehavior | Inr n \<Rightarrow> 4 * unat n \<le> length mem - start)"
    by (rule patched_loop_ends [OF assms]) (use patched_cursor [OF Inr] in auto)
  then show ?thesis using Inr by (simp add: patched_iter_def iter_from_def)
qed

theorem patched_iter_ends_witness:
  "\<exists>r. patched_iter checked_build bad_005 0 5 = Some r"
  using patched_iter_ends [of bad_005 checked_build 0 5] by (auto simp: bad_005_def)

subsection \<open>Well-formed paths\<close>

text \<open>A path as the specification builds it: nodes with their payload, then an end node.\<close>

definition node_bytes :: "u8 \<times> u8 \<times> u8 list \<Rightarrow> u8 list" where
  "node_bytes nd = (case nd of (t, s, payload) \<Rightarrow>
     [t, s, word_of_nat (4 + length payload), word_of_nat ((4 + length payload) div 256)] @ payload)"

definition path_bytes :: "(u8 \<times> u8 \<times> u8 list) list \<Rightarrow> u8 list" where
  "path_bytes nodes = concat (map node_bytes nodes) @ [END_TYPE, 0xff, 4, 0]"

definition node_ok :: "u8 \<times> u8 \<times> u8 list \<Rightarrow> bool" where
  "node_ok nd \<longleftrightarrow> fst nd \<noteq> END_TYPE \<and> length (snd (snd nd)) < 65532"

lemma node_length_at:
  assumes "node_ok (t, s, payload)" "mem = pre @ node_bytes (t, s, payload) @ rest"
  shows "node_length mem (length pre) = Inr (word_of_nat (4 + length payload))"
    and "unat (word_of_nat (4 + length payload) :: u16) = 4 + length payload"
    and "mem ! length pre = t" and "length pre < length mem"
proof -
  define n where "n = 4 + length payload"
  have n: "n < 65536" using assms(1) by (simp add: n_def node_ok_def)
  show "unat (word_of_nat (4 + length payload) :: u16) = 4 + length payload"
    unfolding unat_of_nat using n by (simp add: n_def)
  have m: "mem = pre @ [t, s, word_of_nat n, word_of_nat (n div 256)] @ payload @ rest"
    using assms(2) by (simp only: node_bytes_def prod.case n_def append_assoc)
  have nth: "mem ! (length pre + 2) = word_of_nat n" "mem ! (length pre + 3) = word_of_nat (n div 256)"
    unfolding m nth_append_length_plus by (simp_all add: nth_append)
  have "unat (word_of_nat n :: u8) + 256 * unat (word_of_nat (n div 256) :: u8) = n"
    unfolding unat_u8_of_nat using n by simp
  then have "u16_from_le (word_of_nat n) (word_of_nat (n div 256)) = word_of_nat n"
    by (simp only: u16_from_le_def)
  then show "node_length mem (length pre) = Inr (word_of_nat (4 + length payload))"
    unfolding node_length_def read_byte_def nth by (simp only: n_def [symmetric]) (simp add: m)
  show "mem ! length pre = t" "length pre < length mem" by (simp_all add: m)
qed

lemma end_at:
  assumes "mem = pre @ path_bytes []"
  shows "cursor buggy_stop mem (length pre) = Inr None" "cursor patched_stop mem (length pre) = Inr None"
  using assms
  by (simp_all add: path_bytes_def cursor_def buggy_stop_def patched_stop_def is_end_def read_byte_def)

lemma node_at:
  assumes "node_ok nd" "mem = pre @ node_bytes nd @ rest"
  shows "cursor buggy_stop mem (length pre) = Inr (Some (length pre))"
    and "cursor patched_stop mem (length pre) = Inr (Some (length pre))"
    and "next_node mem (length pre) = Inr (length (pre @ node_bytes nd))"
proof -
  obtain t s payload where nd: "nd = (t, s, payload)" by (cases nd)
  note l = node_length_at [OF assms [unfolded nd]]
  have "(word_of_nat (4 + length payload) :: u16) \<ge> HEADER_SIZE_005"
    unfolding word_le_nat_alt l(2) by (simp add: HEADER_SIZE_005_def)
  moreover have "t \<noteq> END_TYPE" using assms(1) by (simp add: nd node_ok_def)
  ultimately show "cursor buggy_stop mem (length pre) = Inr (Some (length pre))"
    "cursor patched_stop mem (length pre) = Inr (Some (length pre))"
    by (simp_all only: cursor_def buggy_stop_def patched_stop_def is_end_def read_byte_def l
        bind_run.simps if_True if_False not_less [symmetric] simp_thms)
  have len: "length (node_bytes nd) = 4 + length payload" by (simp add: nd node_bytes_def)
  then have "length pre + (4 + length payload) \<le> length mem" by (simp add: assms(2))
  then show "next_node mem (length pre) = Inr (length (pre @ node_bytes nd))"
    unfolding next_node_def l(1) bind_run.simps l(2) by (simp add: len)
qed

lemma cursor_path:
  assumes "list_all node_ok nodes" "mem = pre @ path_bytes nodes" "stop \<in> {buggy_stop, patched_stop}"
  obtains cur where "cursor stop mem (length pre) = Inr cur"
proof (cases nodes)
  case Nil
  then show ?thesis using that end_at [of mem pre] assms(2,3) by auto
next
  case (Cons nd nodes')
  then have "node_ok nd" "mem = pre @ node_bytes nd @ path_bytes nodes'"
    using assms(1,2) by (simp_all add: path_bytes_def)
  then show ?thesis using that node_at(1,2) assms(3) by blast
qed

lemma iter_loop_path:
  assumes "list_all node_ok nodes" "mem = pre @ path_bytes nodes" "stop \<in> {buggy_stop, patched_stop}"
    and "cursor stop mem (length pre) = Inr cur"
    and "unat count + length nodes \<le> unat cap"
  shows "iter_loop b stop mem cap cur count = Some (Inr (count + word_of_nat (length nodes)))"
  using assms
proof (induction nodes arbitrary: pre cur count)
  case Nil
  then have "cur = None" using end_at [OF Nil.prems(2)] by auto
  then show ?case by (simp add: iter_loop.simps)
next
  case (Cons nd nodes)
  have ok: "node_ok nd" and mem: "mem = pre @ node_bytes nd @ path_bytes nodes"
    using Cons.prems(1,2) by (simp_all add: path_bytes_def)
  note at = node_at [OF ok mem]
  have cur: "cur = Some (length pre)" using at Cons.prems(3,4) by auto
  have lt: "unat count < unat cap" using Cons.prems(5) by simp
  then have "count < - 1" by (metis word_less_nat_alt word_order.not_eq_extremum less_trans
        word_order.extremum_strict)
  note c = prim_add_count [OF this]
  have le: "(cap < count + 1) = False" using lt c(2) by (simp add: word_less_nat_alt)
  let ?pre = "pre @ node_bytes nd"
  have mem': "mem = ?pre @ path_bytes nodes" by (simp add: mem)
  have "list_all node_ok nodes" using Cons.prems(1) by simp
  then obtain cur' where cur': "cursor stop mem (length ?pre) = Inr cur'"
    using cursor_path mem' Cons.prems(3) by blast
  have "iter_loop b stop mem cap cur' (count + 1) =
      Some (Inr (count + 1 + word_of_nat (length nodes)))"
    by (rule Cons.IH [OF _ mem' Cons.prems(3) cur']) (use Cons.prems(1,5) c(2) in simp_all)
  then show ?case
    by (subst iter_loop.simps)
       (simp only: cur option.case sum.case c(1) le if_False at(3) bind_run.simps cur' length_Cons
         of_nat_Suc add.assoc)
qed

text \<open>C29. On a well-formed path both iterators visit exactly its nodes, in every build, when
  the cap is at least their number.\<close>

theorem well_formed_path_count:
  assumes "list_all node_ok nodes" "length nodes \<le> unat cap"
  shows "buggy_iter b (path_bytes nodes) 0 cap = Some (Inr (word_of_nat (length nodes))) \<and>
    patched_iter b (path_bytes nodes) 0 cap = Some (Inr (word_of_nat (length nodes)))"
proof -
  have "iter_from b stop (path_bytes nodes) 0 cap = Some (Inr (word_of_nat (length nodes)))"
    if stop: "stop \<in> {buggy_stop, patched_stop}" for stop
  proof -
    obtain cur where cur: "cursor stop (path_bytes nodes) (length ([] :: u8 list)) = Inr cur"
      using cursor_path [OF assms(1) _ stop, of "path_bytes nodes" "[]"] by auto
    show ?thesis
      using iter_loop_path [of nodes "path_bytes nodes" "[]", OF assms(1) _ stop cur, of 0 cap b]
        assms(2) cur
      by (simp add: iter_from_def)
  qed
  then show ?thesis by (simp add: buggy_iter_def patched_iter_def)
qed

theorem well_formed_path_count_witness:
  "buggy_iter checked_build (path_bytes [(1, 1, [7, 7]), (4, 4, [])]) 0 5 = Some (Inr 2) \<and>
   patched_iter checked_build (path_bytes [(1, 1, [7, 7]), (4, 4, [])]) 0 5 = Some (Inr 2)"
  using well_formed_path_count [of "[(1, 1, [7, 7]), (4, 4, [])]" 5 checked_build]
  by (simp add: node_ok_def END_TYPE_def)

lemma main_005_outcome: "\<exists>m. main_005 b = Some m \<and> exit_of m = Exited 0"
proof -
  have bytes: "0 + 3 < length bad_005" "bad_005 ! 0 \<noteq> END_TYPE" "bad_005 ! (0 + 2) = 0" "bad_005 ! (0 + 3) = 0"
    by (simp_all add: bad_005_def END_TYPE_def)
  note z = zero_length_stalls [OF bytes]
  have "buggy_iter b bad_005 0 1000000 = Some (Inr 1000001)"
    using stalled_loop [OF z(1), of 1000000 0 b] by (simp add: buggy_iter_def iter_from_def z)
  moreover have "patched_iter b bad_005 0 1000000 = Some (Inr 0)"
    by (simp add: patched_iter_def iter_from_def z iter_loop.simps)
  ultimately show ?thesis by (simp add: main_005_def exit_simps)
qed

section \<open>Completion tokens (007)\<close>

type_synonym status = u32

definition SUCCESS :: status where
  "SUCCESS = 0"

definition ERROR :: status where
  "ERROR = 0x80000000 OR 5"

definition is_error :: "status \<Rightarrow> bool" where
  "is_error s \<longleftrightarrow> s AND 0x80000000 \<noteq> 0"

record completion_token_t =
  status :: status

record listen_token_t =
  completion_token :: completion_token_t
  new_child :: usize

definition firmware_completes_with_error :: "listen_token_t \<Rightarrow> listen_token_t" where
  "firmware_completes_with_error lt =
     lt\<lparr>completion_token := (completion_token lt)\<lparr>status := ERROR\<rparr>\<rparr>"

definition main_007 :: "unit io" where
  "main_007 =
     (let completion = \<lparr>status = SUCCESS\<rparr>;
          listen_token = \<lparr>completion_token = completion, new_child = 0\<rparr>;
          listen_token = firmware_completes_with_error listen_token;
          pre_patch = is_error (status completion);
          patched = is_error (status (completion_token listen_token))
      in block
        [println [VBool pre_patch], println [VBool patched],
         assert_that (\<not> pre_patch), assert_that patched])"

lemma main_007_outcome: "exit_of main_007 = Exited 0"
  by (simp add: main_007_def SUCCESS_def ERROR_def is_error_def firmware_completes_with_error_def
      exit_simps)

section \<open>The public system-table pointer (060)\<close>

text \<open>
  The two globals and the memory: an address is a word, and \<open>tables\<close> holds the
  \<open>boot_services\<close> field of the system tables that exist.
\<close>

record globals_060 =
  SYSTEM_TABLE :: usize
  BOOT_SERVICES_FLAG :: bool
  tables :: "usize \<rightharpoonup> usize"

definition boot_services :: "globals_060 \<Rightarrow> usize option run" where
  "boot_services g =
     (if \<not> BOOT_SERVICES_FLAG g then Inr None
      else (case tables g (SYSTEM_TABLE g) of
              None \<Rightarrow> Inl UndefinedBehavior
            | Some bs \<Rightarrow> Inr (Some bs)))"

text \<open>\<open>sentinel\<close> is the address of the local variable of that name.\<close>

definition main_060 :: "usize \<Rightarrow> unit io" where
  "main_060 sentinel =
     (let g = \<lparr>SYSTEM_TABLE = 0, BOOT_SERVICES_FLAG = False, tables = [sentinel \<mapsto> 0xdeadbeef]\<rparr>;
          g = g\<lparr>BOOT_SERVICES_FLAG := True\<rparr>;
          g = g\<lparr>SYSTEM_TABLE := sentinel\<rparr>
      in lift_run (bind_run (boot_services g) unwrap_option) (\<lambda>bs. block
        [println [VNat (unat bs)], assert_that (bs = 0xdeadbeef)]))"

lemma main_060_outcome: "exit_of (main_060 sentinel) = Exited 0"
  by (simp add: main_060_def boot_services_def exit_simps)

end
