(* ===== verification/Descriptors.thy ===== *)
theory Descriptors
  imports Prelude
begin

text \<open>
  Programs that lose an operating-system resource on an error path: saved descriptors
  (025, 026), a descriptor across a panic (122), a memory mapping (010), and the read loop
  that gives up on a signal (123). The C library is not part of the sources: its calls are
  arguments of the definitions, functions on a system state, and what POSIX documents of
  them is a locale. A table of descriptors and a table of mappings that take the lowest
  free entry provide the locales.
\<close>

section \<open>Saving and restoring a descriptor (026, 025)\<close>

definition buggy_restore_round ::
  "('s \<Rightarrow> i32 \<Rightarrow> 's \<times> i32) \<Rightarrow> ('s \<Rightarrow> i32 \<Rightarrow> i32 \<Rightarrow> 's \<times> i32) \<Rightarrow> ('s \<Rightarrow> i32 \<Rightarrow> 's \<times> i32) \<Rightarrow>
   's \<Rightarrow> bool \<Rightarrow> 's \<times> i32 option" where
  "buggy_restore_round dup dup2 close_fd s simulate_dup2_fail =
     (let (s, saved) = dup s 0 in
      if sint saved < 0 then (s, None)
      else
        (let (s, dup2_result) = (if simulate_dup2_fail then (s, - 1) else dup2 s saved 0) in
         if sint dup2_result < 0 then (s, Some saved)
         else
           (let (s, _) = close_fd s saved in (s, None))))"

fun leak_rounds ::
  "('s \<Rightarrow> 's \<times> i32 option) \<Rightarrow> nat \<Rightarrow> 's \<Rightarrow> 's \<times> i32 list" where
  "leak_rounds round 0 s = (s, [])"
| "leak_rounds round (Suc n) s =
     (let (s, r) = round s; (s, leaks) = leak_rounds round n s
      in (s, case r of None \<Rightarrow> leaks | Some fd \<Rightarrow> fd # leaks))"

definition main_026 ::
  "('s \<Rightarrow> i32 \<Rightarrow> 's \<times> i32) \<Rightarrow> ('s \<Rightarrow> i32 \<Rightarrow> i32 \<Rightarrow> 's \<times> i32) \<Rightarrow> ('s \<Rightarrow> i32 \<Rightarrow> 's \<times> i32) \<Rightarrow>
   's \<Rightarrow> 's \<times> unit io" where
  "main_026 dup dup2 close_fd s =
     (let (s, leaks) = leak_rounds (\<lambda>s. buggy_restore_round dup dup2 close_fd s True) 16 s in
      if length leaks = 16 \<and> list_all (\<lambda>fd. sint fd > 2) leaks
      then (fold (\<lambda>fd s. fst (close_fd s fd)) leaks s,
            block [println [VList (map (VInt \<circ> sint) leaks)], println [], exit_process 0])
      else (s, block [println [VList (map (VInt \<circ> sint) leaks)], println [], exit_process 1]))"

definition STDIN_FILENO :: i32 where
  "STDIN_FILENO = 0"

definition faux_spawn_buggy ::
  "('s \<Rightarrow> i32 \<Rightarrow> 's \<times> i32) \<Rightarrow> ('s \<Rightarrow> i32 \<Rightarrow> i32 \<Rightarrow> 's \<times> i32) \<Rightarrow> ('s \<Rightarrow> i32 \<Rightarrow> 's \<times> i32) \<Rightarrow>
   ('s \<Rightarrow> string \<Rightarrow> 's \<times> i32) \<Rightarrow> 's \<Rightarrow> i32 \<Rightarrow> string \<Rightarrow> 's \<times> (unit, string) result" where
  "faux_spawn_buggy dup dup2 close_fd chdir s child_stdin_fd missing_dir =
     (let (s, orig_stdin) = dup s STDIN_FILENO in
      if sint orig_stdin < 0 then (s, Err ''dup failed'')
      else
        (let (s, r) = dup2 s child_stdin_fd STDIN_FILENO in
         if sint r < 0 then (s, Err ''dup2 failed'')
         else
           (let (s, r) = chdir s missing_dir in
            if r \<noteq> 0 then (s, Err ''chdir failed'')
            else
              (let (s, _) = dup2 s orig_stdin STDIN_FILENO;
                   (s, _) = close_fd s orig_stdin
               in (s, Ok ())))))"

section \<open>A descriptor across a panic (122)\<close>

text \<open>The state is returned next to the outcome: unwinding does not undo it.\<close>

definition O_RDONLY :: i32 where
  "O_RDONLY = 0"

definition F_GETFD :: i32 where
  "F_GETFD = 1"

definition fd_is_open :: "('s \<Rightarrow> i32 \<Rightarrow> i32 \<Rightarrow> i32) \<Rightarrow> 's \<Rightarrow> i32 \<Rightarrow> bool" where
  "fd_is_open fcntl s fd \<longleftrightarrow> fcntl s fd F_GETFD \<noteq> - 1"

definition vulnerable_read_file_simulated ::
  "('s \<Rightarrow> string \<Rightarrow> i32 \<Rightarrow> 's \<times> i32) \<Rightarrow> ('s \<Rightarrow> i32 \<Rightarrow> 's \<times> i32) \<Rightarrow>
   's \<Rightarrow> bool \<Rightarrow> 's \<times> (unit, string) result run" where
  "vulnerable_read_file_simulated open_file close_fd s reserve_panics =
     (let path = ''/dev/null'';
          (s, file) = open_file s path O_RDONLY
      in if file = - 1 then (s, Inr (Err ''open failed''))
         else if reserve_panics then (s, Inl ExplicitPanic)
         else (let (s, _) = close_fd s file in (s, Inr (Ok ()))))"

definition open_count :: "('s \<Rightarrow> i32 \<Rightarrow> i32 \<Rightarrow> i32) \<Rightarrow> 's \<Rightarrow> nat" where
  "open_count fcntl s =
     length (filter (\<lambda>fd. fd_is_open fcntl s (word_of_nat fd)) [3..<256])"

definition main_122 ::
  "('s \<Rightarrow> string \<Rightarrow> i32 \<Rightarrow> 's \<times> i32) \<Rightarrow> ('s \<Rightarrow> i32 \<Rightarrow> 's \<times> i32) \<Rightarrow> ('s \<Rightarrow> i32 \<Rightarrow> i32 \<Rightarrow> i32) \<Rightarrow>
   's \<Rightarrow> unit io" where
  "main_122 open_file close_fd fcntl s =
     (let (s, result) = vulnerable_read_file_simulated open_file close_fd s True;
          leaked_count = open_count fcntl s;
          (s2, _) = vulnerable_read_file_simulated open_file close_fd s True;
          (s3, _) = vulnerable_read_file_simulated open_file close_fd s2 True;
          after_count = open_count fcntl s3
      in block
        [assert_that (isl result),
         assert_that (after_count > leaked_count),
         println [VNat leaked_count, VNat after_count]])"

text \<open>The table once \<open>saved\<close> keeps descriptor 0 and descriptor 0 is the child's input.\<close>

definition redirected :: "(i32 \<Rightarrow> 'f option) \<Rightarrow> i32 \<Rightarrow> i32 \<Rightarrow> i32 \<Rightarrow> 'f option" where
  "redirected fds saved child = (let fds' = fds(saved := fds 0) in fds'(0 := fds' child))"

section \<open>What the descriptor calls promise\<close>

text \<open>
  \<open>fds\<close> is the table of open descriptors and the files they refer to. A failed \<open>dup\<close>,
  \<open>dup2\<close> or \<open>open\<close> changes nothing; \<open>dup\<close> and \<open>open\<close> return a descriptor that was not open;
  \<open>dup2\<close> redirects its target; \<open>close\<close> releases its argument, also when it reports an error,
  as on Linux; \<open>chdir\<close> leaves the table alone.
\<close>

locale descriptor_table =
  fixes fds :: "'s \<Rightarrow> i32 \<Rightarrow> 'f option"
    and dup :: "'s \<Rightarrow> i32 \<Rightarrow> 's \<times> i32"
    and dup2 :: "'s \<Rightarrow> i32 \<Rightarrow> i32 \<Rightarrow> 's \<times> i32"
    and close_fd :: "'s \<Rightarrow> i32 \<Rightarrow> 's \<times> i32"
  assumes dup_law: "dup s fd = (s', r) \<Longrightarrow>
      (if sint r < 0 then fds s' = fds s
       else fds s r = None \<and> fds s fd \<noteq> None \<and> fds s' = (fds s)(r := fds s fd))"
    and dup2_law: "dup2 s src dst = (s', r) \<Longrightarrow>
      (if sint r < 0 then fds s' = fds s
       else fds s src \<noteq> None \<and> fds s' = (fds s)(dst := fds s src))"
    and close_law: "close_fd s fd = (s', r) \<Longrightarrow> fds s' = (fds s)(fd := None)"
begin

lemma restore_round:
  assumes "buggy_restore_round dup dup2 close_fd s fail = (s', r)"
  shows "case r of
      None \<Rightarrow> fds s' = fds s
    | Some fd \<Rightarrow> fds s fd = None \<and> fds s 0 \<noteq> None \<and> fds s' = (fds s)(fd := fds s 0)"
proof -
  obtain s1 saved where dup: "dup s 0 = (s1, saved)" by fastforce
  show ?thesis
  proof (cases "sint saved < 0")
    case True
    then show ?thesis
      using assms dup_law [OF dup] by (auto simp: buggy_restore_round_def dup)
  next
    case False
    note d = dup_law [OF dup, unfolded if_not_P [OF False]]
    obtain s2 r2 where dup2: "dup2 s1 saved 0 = (s2, r2)" by fastforce
    obtain s3 r3 where cl: "close_fd s2 saved = (s3, r3)" by fastforce
    have ne: "saved \<noteq> 0" using d by auto
    have "(fds s)(saved := fds s 0, 0 := fds s 0, saved := None) = fds s"
      using d ne by (auto simp: fun_eq_iff)
    then show ?thesis
      using assms False d dup2_law [OF dup2] close_law [OF cl]
      by (auto simp: buggy_restore_round_def dup dup2 cl Let_def split: if_splits)
  qed
qed

lemma leaked_rounds:
  assumes "leak_rounds (\<lambda>s. buggy_restore_round dup dup2 close_fd s fail) n s = (s', leaks)"
  shows "distinct leaks \<and> (\<forall>fd \<in> set leaks. fds s fd = None) \<and> length leaks \<le> n \<and>
    dom (fds s') = dom (fds s) \<union> set leaks \<and> fds s' 0 = fds s 0"
  using assms
proof (induction n arbitrary: s s' leaks)
  case (Suc n)
  obtain s1 r where r: "buggy_restore_round dup dup2 close_fd s fail = (s1, r)" by fastforce
  obtain s2 ls where ls: "leak_rounds (\<lambda>s. buggy_restore_round dup dup2 close_fd s fail) n s1 = (s2, ls)"
    by fastforce
  have e: "s' = s2" "leaks = (case r of None \<Rightarrow> ls | Some fd \<Rightarrow> fd # ls)"
    using Suc.prems by (simp_all add: r ls)
  show ?case
    using Suc.IH [OF ls] restore_round [OF r] by (cases r) (auto simp: e split: if_splits)
qed auto

lemma faux_spawn:
  assumes "faux_spawn_buggy dup dup2 close_fd chdir s child dir = (s', r)"
    and chdir_law: "\<And>s s' d r. chdir s d = (s', r) \<Longrightarrow> fds s' = fds s"
  shows "case r of
      Ok _ \<Rightarrow> fds s' = fds s \<or>
        (\<exists>saved t t' e. fds s saved = None \<and> fds t = redirected (fds s) saved child \<and>
          dup2 t saved 0 = (t', e) \<and> sint e < 0 \<and> fds s' = (fds t)(saved := None))
    | Err e \<Rightarrow> e = ''dup failed'' \<and> fds s' = fds s \<or>
        (\<exists>saved. fds s saved = None \<and> fds s 0 \<noteq> None \<and>
          (e = ''dup2 failed'' \<and> fds s' = (fds s)(saved := fds s 0) \<or>
           e = ''chdir failed'' \<and> fds s' = redirected (fds s) saved child))"
proof -
  obtain s1 saved where dup: "dup s 0 = (s1, saved)" by fastforce
  obtain s2 r2 where dup2: "dup2 s1 child 0 = (s2, r2)" by fastforce
  obtain s3 r3 where cd: "chdir s2 dir = (s3, r3)" by fastforce
  obtain s4 r4 where dup2': "dup2 s3 saved 0 = (s4, r4)" by fastforce
  obtain s5 r5 where cl: "close_fd s4 saved = (s5, r5)" by fastforce
  note calls = dup dup2 cd dup2' cl
  note laws = dup_law [OF dup] dup2_law [OF dup2] chdir_law [OF cd] dup2_law [OF dup2'] close_law [OF cl]
  show ?thesis
  proof (cases "sint saved < 0 \<or> sint r2 < 0 \<or> r3 \<noteq> 0")
    case True
    then show ?thesis
      using assms(1) laws
      by (auto simp: faux_spawn_buggy_def STDIN_FILENO_def calls redirected_def Let_def split: if_splits)
  next
    case False
    then have r: "r = Ok ()" "s' = s5"
      using assms(1) by (auto simp: faux_spawn_buggy_def STDIN_FILENO_def calls)
    have saved: "fds s saved = None" "saved \<noteq> 0" using False laws(1) by auto
    have s3: "fds s3 = redirected (fds s) saved child"
      using False laws(1-3) by (simp add: redirected_def Let_def)
    show ?thesis
    proof (cases "sint r4 < 0")
      case True
      then show ?thesis using r saved s3 laws(4,5) dup2' by (auto intro!: exI)
    next
      case False
      then have "fds s' = fds s"
        using r saved s3 laws(4,5) by (auto simp: redirected_def Let_def fun_eq_iff)
      then show ?thesis using r by simp
    qed
  qed
qed

end

text \<open>The calls of the file reader: \<open>open\<close> and \<open>fcntl(F_GETFD)\<close> over the same table.\<close>

locale file_table = descriptor_table fds dup dup2 close_fd
  for fds :: "'s \<Rightarrow> i32 \<Rightarrow> 'f option" and dup dup2 close_fd +
  fixes open_file :: "'s \<Rightarrow> string \<Rightarrow> i32 \<Rightarrow> 's \<times> i32"
    and fcntl :: "'s \<Rightarrow> i32 \<Rightarrow> i32 \<Rightarrow> i32"
  assumes open_law: "open_file s path flags = (s', r) \<Longrightarrow>
      (if r = - 1 then fds s' = fds s
       else fds s r = None \<and> (\<exists>f. fds s' = (fds s)(r \<mapsto> f)))"
    and getfd_law: "fcntl s fd F_GETFD = - 1 \<longleftrightarrow> fds s fd = None"
begin

lemma fd_is_open_iff: "fd_is_open fcntl s fd \<longleftrightarrow> fds s fd \<noteq> None"
  by (simp add: fd_is_open_def getfd_law)

lemma read_file_simulated:
  assumes "vulnerable_read_file_simulated open_file close_fd s panics = (s', r)"
  shows "case r of
      Inr _ \<Rightarrow> fds s' = fds s
    | Inl e \<Rightarrow> e = ExplicitPanic \<and> panics \<and>
        (\<exists>fd. \<not> fd_is_open fcntl s fd \<and> fd_is_open fcntl s' fd \<and> dom (fds s') = insert fd (dom (fds s)))"
proof -
  obtain s1 fd where op: "open_file s ''/dev/null'' O_RDONLY = (s1, fd)" by fastforce
  obtain s2 r2 where cl: "close_fd s1 fd = (s2, r2)" by fastforce
  have "(fds s)(fd := None) = fds s" if "fds s fd = None"
    using that by (auto simp: fun_eq_iff)
  then show ?thesis
    using assms open_law [OF op] close_law [OF cl]
    by (auto simp: vulnerable_read_file_simulated_def op cl Let_def fd_is_open_iff split: if_splits)
qed

end

section \<open>An alternate signal stack (010)\<close>

definition PROT_NONE :: i32 where
  "PROT_NONE = 0"

definition PROT_READ :: i32 where
  "PROT_READ = 1"

definition PROT_WRITE :: i32 where
  "PROT_WRITE = 2"

definition MAP_PRIVATE :: i32 where
  "MAP_PRIVATE = 0x0002"

text \<open>The flag depends on the operating system; the program has it for two.\<close>

datatype platform = Linux | MacOS

definition MAP_ANON :: "platform \<Rightarrow> i32" where
  "MAP_ANON os = (case os of MacOS \<Rightarrow> 0x1000 | Linux \<Rightarrow> 0x0020)"

definition MAP_FAILED :: usize where
  "MAP_FAILED = NOT 0"

text \<open>The error texts; the leak message carries the address and the length.\<close>

datatype stack_error =
    mmap_failed
  | mprotect_failed_leaked usize usize
  | mprotect_failed_released

type_synonym 's mmap_fn = "'s \<Rightarrow> usize \<Rightarrow> usize \<Rightarrow> i32 \<Rightarrow> i32 \<Rightarrow> i32 \<Rightarrow> i64 \<Rightarrow> 's \<times> usize"

definition buggy_get_stack ::
  "'s mmap_fn \<Rightarrow> ('s \<Rightarrow> usize \<Rightarrow> usize \<Rightarrow> i32 \<Rightarrow> 's \<times> i32) \<Rightarrow>
   platform \<Rightarrow> build \<Rightarrow> 's \<Rightarrow> usize \<Rightarrow> usize \<Rightarrow> 's \<times> (usize, stack_error) result run" where
  "buggy_get_stack mmap mprotect os b s sigstack_size page_size =
     (case prim_add b sigstack_size page_size of
        Inl e \<Rightarrow> (s, Inl e)
      | Inr total_len \<Rightarrow>
          (let (s, p) = mmap s 0 total_len (PROT_READ OR PROT_WRITE) (MAP_PRIVATE OR MAP_ANON os) (- 1) 0 in
           if p = MAP_FAILED then (s, Inr (Err mmap_failed))
           else
             (let bad = p + 1;
                  (s, r) = mprotect s bad page_size PROT_NONE
              in if r \<noteq> 0 then (s, Inr (Err (mprotect_failed_leaked p total_len)))
                 else (s, Inr (Ok p)))))"

definition patched_get_stack ::
  "'s mmap_fn \<Rightarrow> ('s \<Rightarrow> usize \<Rightarrow> usize \<Rightarrow> i32 \<Rightarrow> 's \<times> i32) \<Rightarrow> ('s \<Rightarrow> usize \<Rightarrow> usize \<Rightarrow> 's \<times> i32) \<Rightarrow>
   platform \<Rightarrow> build \<Rightarrow> 's \<Rightarrow> usize \<Rightarrow> usize \<Rightarrow> 's \<times> (usize, stack_error) result run" where
  "patched_get_stack mmap mprotect munmap os b s sigstack_size page_size =
     (case prim_add b sigstack_size page_size of
        Inl e \<Rightarrow> (s, Inl e)
      | Inr total_len \<Rightarrow>
          (let (s, p) = mmap s 0 total_len (PROT_READ OR PROT_WRITE) (MAP_PRIVATE OR MAP_ANON os) (- 1) 0 in
           if p = MAP_FAILED then (s, Inr (Err mmap_failed))
           else
             (let bad = p + 1;
                  (s, r) = mprotect s bad page_size PROT_NONE
              in if r \<noteq> 0
                 then (let (s, _) = munmap s p total_len in (s, Inr (Err mprotect_failed_released)))
                 else (s, Inr (Ok p)))))"

text \<open>The targets: a Unix, on which the program runs, or another one.\<close>

datatype target = Unix platform | Other_Target

definition main_010 ::
  "'s mmap_fn \<Rightarrow> ('s \<Rightarrow> usize \<Rightarrow> usize \<Rightarrow> i32 \<Rightarrow> 's \<times> i32) \<Rightarrow> ('s \<Rightarrow> usize \<Rightarrow> usize \<Rightarrow> 's \<times> i32) \<Rightarrow>
   target \<Rightarrow> build \<Rightarrow> 's \<Rightarrow> unit io" where
  "main_010 mmap mprotect munmap target b s =
     (case target of
        Unix os \<Rightarrow>
          (let page = 16384; sigstack = 64 * 1024;
               (s, r1) = buggy_get_stack mmap mprotect os b s sigstack page;
               (s, r2) = patched_get_stack mmap mprotect munmap os b s sigstack page
           in block
             [case r1 of Inr (Err e) \<Rightarrow> println [VUnit] | _ \<Rightarrow> panic_now,
              case r2 of Inr (Err e) \<Rightarrow> println [VUnit] | _ \<Rightarrow> panic_now])
      | Other_Target \<Rightarrow> println [])"

text \<open>
  \<open>maps\<close> is the table of mappings, by start address. The kernel maps at fresh addresses,
  \<open>mprotect\<close> moves no mapping and refuses an address that is not page aligned.
\<close>

locale mapping_table =
  fixes maps :: "'s \<Rightarrow> usize \<Rightarrow> usize option"
    and mmap :: "'s mmap_fn"
    and mprotect :: "'s \<Rightarrow> usize \<Rightarrow> usize \<Rightarrow> i32 \<Rightarrow> 's \<times> i32"
    and munmap :: "'s \<Rightarrow> usize \<Rightarrow> usize \<Rightarrow> 's \<times> i32"
  assumes mmap_law: "mmap s a len prot flags fd off = (s', p) \<Longrightarrow>
      (if p = MAP_FAILED then maps s' = maps s
       else maps s p = None \<and> maps s' = (maps s)(p \<mapsto> len) \<and> 4096 dvd unat p)"
    and mprotect_law: "mprotect s p len prot = (s', r) \<Longrightarrow>
      maps s' = maps s \<and> (if 4096 dvd unat p then True else r \<noteq> 0)"
    and munmap_law: "munmap s p len = (s', r) \<Longrightarrow>
      (if maps s p = Some len then maps s' = (maps s)(p := None) else True)"
begin

lemma misaligned: "4096 dvd unat p \<Longrightarrow> \<not> 4096 dvd unat (p + 1 :: usize)"
proof -
  assume p: "4096 dvd unat p"
  then obtain k where k: "unat p = 4096 * k" by (elim dvdE)
  have "unat p < 18446744073709551616" using unat_word_less [of p] by simp
  then have "unat p + unat (1 :: usize) < 2 ^ LENGTH(64)" using k by simp
  then have "unat (p + 1) = 4096 * k + 1" using unat_add_exact [of p 1] k by simp
  then show ?thesis unfolding dvd_eq_mod_eq_0 by (simp add: mod_Suc)
qed

lemma get_stack_maps:
  assumes mm: "mmap s 0 (sigstack_size + page_size) (PROT_READ OR PROT_WRITE) (MAP_PRIVATE OR MAP_ANON os) (- 1) 0 = (s0, p)"
    and add: "prim_add b sigstack_size page_size = Inr (sigstack_size + page_size)"
  shows "buggy_get_stack mmap mprotect os b s sigstack_size page_size = (s', r) \<Longrightarrow>
      (if p = MAP_FAILED then r = Inr (Err mmap_failed) \<and> maps s' = maps s
       else r = Inr (Err (mprotect_failed_leaked p (sigstack_size + page_size))) \<and> maps s p = None \<and>
         maps s' = (maps s)(p \<mapsto> sigstack_size + page_size))"
    and "patched_get_stack mmap mprotect munmap os b s sigstack_size page_size = (s', r) \<Longrightarrow>
      r = Inr (Err (if p = MAP_FAILED then mmap_failed else mprotect_failed_released)) \<and> maps s' = maps s"
proof -
  define total_len where "total_len = sigstack_size + page_size"
  obtain s2 r2 where mp: "mprotect s0 (p + 1) page_size PROT_NONE = (s2, r2)" by fastforce
  obtain s3 r3 where mu: "munmap s2 p total_len = (s3, r3)" by fastforce
  note calls = mm [folded total_len_def] mp mu
  note laws = mmap_law [OF calls(1)] mprotect_law [OF mp] munmap_law [OF mu]
  have undo: "(maps s)(p := None) = maps s" if "maps s p = None"
    using that by (auto simp: fun_eq_iff)
  have r2: "r2 \<noteq> 0" if "p \<noteq> MAP_FAILED"
    using laws misaligned [of p] that by auto
  show "buggy_get_stack mmap mprotect os b s sigstack_size page_size = (s', r) \<Longrightarrow>
      (if p = MAP_FAILED then r = Inr (Err mmap_failed) \<and> maps s' = maps s
       else r = Inr (Err (mprotect_failed_leaked p (sigstack_size + page_size))) \<and> maps s p = None \<and>
         maps s' = (maps s)(p \<mapsto> sigstack_size + page_size))"
    using laws r2
    by (auto simp: buggy_get_stack_def add calls Let_def simp flip: total_len_def split: if_splits)
  show "patched_get_stack mmap mprotect munmap os b s sigstack_size page_size = (s', r) \<Longrightarrow>
      r = Inr (Err (if p = MAP_FAILED then mmap_failed else mprotect_failed_released)) \<and> maps s' = maps s"
    using laws r2 undo
    by (auto simp: patched_get_stack_def add calls Let_def simp flip: total_len_def split: if_splits)
qed

end

section \<open>Reading to the end of a file (123)\<close>

text \<open>
  The loop ends only when a read returns 0 or -1, so it is a partial function; the error
  value is the error number the message interpolates.
\<close>

definition EINTR :: i32 where
  "EINTR = 4"

partial_function (option) vulnerable_read_file ::
  "('s \<Rightarrow> i32 \<Rightarrow> nat \<Rightarrow> 's \<times> isize) \<Rightarrow> ('s \<Rightarrow> i32) \<Rightarrow> 's \<Rightarrow> i32 \<Rightarrow> ('s \<times> (unit, i32) result) option" where
  "vulnerable_read_file read errno s fd =
     (case read s fd 4096 of (s, n) \<Rightarrow>
        if n = - 1 then Some (s, Err (errno s))
        else if n = 0 then Some (s, Ok ())
        else vulnerable_read_file read errno s fd)"

text \<open>
  A descriptor on which the reads return a given list of counts, an error carrying its
  number, and then the end of the file.
\<close>

datatype read_event = Bytes isize | Fails i32

definition scripted_read :: "i32 \<times> read_event list \<Rightarrow> i32 \<Rightarrow> nat \<Rightarrow> (i32 \<times> read_event list) \<times> isize" where
  "scripted_read s fd count =
     (case snd s of
        [] \<Rightarrow> (s, 0)
      | Bytes n # es \<Rightarrow> ((fst s, es), n)
      | Fails e # es \<Rightarrow> ((e, es), - 1))"

lemma scripted_read_simps:
  "scripted_read (e0, []) fd c = ((e0, []), 0)"
  "scripted_read (e0, Bytes n # es) fd c = ((e0, es), n)"
  "scripted_read (e0, Fails e # es) fd c = ((e, es), - 1)"
  by (simp_all add: scripted_read_def)

fun data_event :: "read_event \<Rightarrow> bool" where
  "data_event (Bytes n) \<longleftrightarrow> 0 < sint n"
| "data_event (Fails e) \<longleftrightarrow> False"

lemma read_to_first_error:
  "list_all data_event es \<Longrightarrow>
     vulnerable_read_file scripted_read fst (e0, es) fd = Some ((e0, []), Ok ()) \<and>
     vulnerable_read_file scripted_read fst (e0, es @ Fails e # rest) fd = Some ((e, rest), Err e)"
proof (induction es)
  case Nil
  show ?case
    by (simp add: vulnerable_read_file.simps scripted_read_simps)
next
  case (Cons ev es)
  then obtain n where ev: "ev = Bytes n" "0 < sint n" by (cases ev) auto
  then have "n \<noteq> 0" "n \<noteq> - 1" by auto
  then show ?case
    using Cons ev
    by (subst (1 2) vulnerable_read_file.simps) (simp add: scripted_read_simps)
qed

section \<open>Tables that provide the interfaces\<close>

type_synonym fd_table = "i32 \<Rightarrow> nat option"

definition lowest_fd :: "fd_table \<Rightarrow> nat option" where
  "lowest_fd t = find (\<lambda>i. t (word_of_nat i) = None) [0..<1024]"

definition allocate_fd :: "fd_table \<Rightarrow> nat option \<Rightarrow> fd_table \<times> i32" where
  "allocate_fd t f =
     (case (f, lowest_fd t) of
        (Some f, Some i) \<Rightarrow> (t(word_of_nat i \<mapsto> f), word_of_nat i)
      | _ \<Rightarrow> (t, - 1))"

definition table_dup :: "fd_table \<Rightarrow> i32 \<Rightarrow> fd_table \<times> i32" where
  "table_dup t fd = allocate_fd t (t fd)"

definition table_dup2 :: "fd_table \<Rightarrow> i32 \<Rightarrow> i32 \<Rightarrow> fd_table \<times> i32" where
  "table_dup2 t src dst =
     (if t src = None \<or> sint dst < 0 then (t, - 1) else (t(dst := t src), dst))"

definition table_close :: "fd_table \<Rightarrow> i32 \<Rightarrow> fd_table \<times> i32" where
  "table_close t fd = (t(fd := None), if t fd = None then - 1 else 0)"

definition table_open :: "fd_table \<Rightarrow> string \<Rightarrow> i32 \<Rightarrow> fd_table \<times> i32" where
  "table_open t path flags = allocate_fd t (Some (length path))"

definition table_fcntl :: "fd_table \<Rightarrow> i32 \<Rightarrow> i32 \<Rightarrow> i32" where
  "table_fcntl t fd cmd = (if t fd = None then - 1 else 0)"

lemma allocate_fd_law:
  assumes "allocate_fd t f = (t', r)"
  shows "r = - 1 \<and> t' = t \<or> 0 \<le> sint r \<and> r \<noteq> - 1 \<and> f \<noteq> None \<and> t r = None \<and> t' = t(r := f)"
proof (cases "lowest_fd t")
  case None
  then show ?thesis using assms by (auto simp: allocate_fd_def split: option.splits)
next
  case (Some i)
  then have i: "i < 1024" "t (word_of_nat i) = None"
    by (auto simp: lowest_fd_def find_Some_iff)
  have "sint (word_of_int (int i) :: i32) = int i"
    by (rule sint_word_of_int_fits) (use i in \<open>simp add: fits_signed_def\<close>)
  then have p: "0 \<le> sint (word_of_nat i :: i32)" by simp
  then have "(word_of_nat i :: i32) \<noteq> - 1" by auto
  then show ?thesis
    using assms Some i p by (auto simp: allocate_fd_def split: option.splits)
qed

interpretation posix: file_table "\<lambda>t. t" table_dup table_dup2 table_close table_open table_fcntl
proof unfold_locales
  show "if sint r < 0 then t' = t else t r = None \<and> t fd \<noteq> None \<and> t' = t(r := t fd)"
    if "table_dup t fd = (t', r)" for t fd t' r
    using allocate_fd_law [OF that [unfolded table_dup_def]] by auto
  show "if sint r < 0 then t' = t else t src \<noteq> None \<and> t' = t(dst := t src)"
    if "table_dup2 t src dst = (t', r)" for t src dst t' r
    using that by (auto simp: table_dup2_def split: if_splits)
  show "t' = t(fd := None)" if "table_close t fd = (t', r)" for t fd t' r
    using that by (simp add: table_close_def)
  show "if r = - 1 then t' = t else t r = None \<and> (\<exists>f. t' = t(r \<mapsto> f))"
    if "table_open t path flags = (t', r)" for t path flags t' r
    using allocate_fd_law [OF that [unfolded table_open_def]] by auto
  show "table_fcntl t fd F_GETFD = - 1 \<longleftrightarrow> t fd = None" for t fd
    by (simp add: table_fcntl_def)
qed

type_synonym page_table = "usize \<Rightarrow> usize option"

definition table_mmap :: "page_table mmap_fn" where
  "table_mmap t a len prot flags fd off =
     (case find (\<lambda>i. t (word_of_nat (4096 * i)) = None) [1..<1024] of
        None \<Rightarrow> (t, MAP_FAILED)
      | Some i \<Rightarrow> (t(word_of_nat (4096 * i) \<mapsto> len), word_of_nat (4096 * i)))"

definition table_mprotect :: "page_table \<Rightarrow> usize \<Rightarrow> usize \<Rightarrow> i32 \<Rightarrow> page_table \<times> i32" where
  "table_mprotect t p len prot = (t, if 4096 dvd unat p then 0 else - 1)"

definition table_munmap :: "page_table \<Rightarrow> usize \<Rightarrow> usize \<Rightarrow> page_table \<times> i32" where
  "table_munmap t p len = (if t p = Some len then (t(p := None), 0) else (t, - 1))"

interpretation kernel: mapping_table "\<lambda>t. t" table_mmap table_mprotect table_munmap
proof unfold_locales
  show "if p = MAP_FAILED then t' = t else t p = None \<and> t' = t(p \<mapsto> len) \<and> 4096 dvd unat p"
    if call: "table_mmap t a len prot flags fd off = (t', p)" for t a len prot flags fd off t' p
  proof (cases "find (\<lambda>i. t (word_of_nat (4096 * i)) = None) [1..<1024]")
    case None
    then show ?thesis using call by (simp add: table_mmap_def)
  next
    case (Some i)
    then have i: "i < 1024" "t (word_of_nat (4096 * i)) = None"
      unfolding find_Some_iff by auto
    have u: "unat (word_of_nat (4096 * i) :: usize) = 4096 * i"
      unfolding unat_of_nat using i by simp
    then have "4096 dvd unat (word_of_nat (4096 * i) :: usize)" by (metis dvd_triv_left)
    moreover have "p = word_of_nat (4096 * i)" "t' = t(p \<mapsto> len)"
      using call by (auto simp only: table_mmap_def Some option.case prod.inject)
    moreover have "word_of_nat (4096 * i) \<noteq> MAP_FAILED"
      using unat_max_word [where 'a = 64] u i by (auto simp: MAP_FAILED_def)
    ultimately show ?thesis using i by (simp only: if_False simp_thms)
  qed
  show "t' = t \<and> (if 4096 dvd unat p then True else r \<noteq> 0)"
    if "table_mprotect t p len prot = (t', r)" for t p len prot t' r
    using that by (auto simp: table_mprotect_def)
  show "if t p = Some len then t' = t(p := None) else True"
    if "table_munmap t p len = (t', r)" for t p len t' r
    using that by (auto simp: table_munmap_def split: if_splits)
qed

section \<open>What the programs leave open\<close>

text \<open>C35. Whatever the descriptor calls do within their contract, a restore round either
  leaves the table as it was or returns the one descriptor it leaked, a copy of descriptor 0;
  so the descriptors that \<open>n\<close> rounds return are distinct, were closed before, and are
  exactly what the rounds left open. Descriptor 0 keeps its file.\<close>

theorem restore_rounds_leak:
  assumes "descriptor_table fds dup dup2 close_fd"
    and "leak_rounds (\<lambda>s. buggy_restore_round dup dup2 close_fd s fail) n s = (s', leaks)"
  shows "distinct leaks \<and> set leaks \<inter> dom (fds s) = {} \<and>
    dom (fds s') = dom (fds s) \<union> set leaks \<and> fds s' 0 = fds s 0"
  using descriptor_table.leaked_rounds [OF assms] by (simp add: disjoint_iff domIff)

definition standard_fds :: fd_table where
  "standard_fds = [0 \<mapsto> 0, 1 \<mapsto> 1, 2 \<mapsto> 2]"

text \<open>A table whose open descriptors are the first \<open>n\<close>.\<close>

definition first_fds :: "nat \<Rightarrow> fd_table \<Rightarrow> bool" where
  "first_fds n t \<longleftrightarrow> (\<forall>fd. t fd \<noteq> None \<longleftrightarrow> unat fd < n)"

lemma unat_i32_of_nat: "i \<le> 1024 \<Longrightarrow> unat (word_of_nat i :: i32) = i"
  unfolding unat_of_nat by simp

lemma allocate_first:
  assumes "first_fds n t" "n < 1024"
  shows "allocate_fd t (Some f) = (t(word_of_nat n \<mapsto> f), word_of_nat n)"
    and "first_fds (Suc n) (t(word_of_nat n \<mapsto> f))"
proof -
  have "t (word_of_nat n) = None"
    using assms by (metis first_fds_def less_imp_le less_irrefl unat_i32_of_nat)
  then have "lowest_fd t = Some n"
    unfolding lowest_fd_def find_Some_iff
    using assms by (intro exI [of _ n]) (auto simp: first_fds_def unat_i32_of_nat)
  then show "allocate_fd t (Some f) = (t(word_of_nat n \<mapsto> f), word_of_nat n)"
    by (simp add: allocate_fd_def)
  have "unat fd < Suc n \<longleftrightarrow> fd = word_of_nat n \<or> unat fd < n" for fd :: i32
    using assms(2) by (auto simp: less_Suc_eq unat_i32_of_nat word_unat_eq_iff)
  then show "first_fds (Suc n) (t(word_of_nat n \<mapsto> f))"
    using assms(1) by (auto simp: first_fds_def)
qed

lemma sint_i32_of_nat: "i \<le> 1024 \<Longrightarrow> sint (word_of_nat i :: i32) = int i"
  using sint_word_of_int_fits [of "int i", where 'a = 32] by (simp add: fits_signed_def)

lemma failing_round:
  assumes "first_fds n t" "1 \<le> n" "n < 1024"
  shows "\<exists>t'. buggy_restore_round table_dup table_dup2 table_close t True = (t', Some (word_of_nat n)) \<and>
    first_fds (Suc n) t'"
proof -
  obtain f where f: "t 0 = Some f" using assms(1,2) by (force simp: first_fds_def)
  show ?thesis
    using allocate_first [OF assms(1,3), of f] f assms(3)
    by (simp add: buggy_restore_round_def table_dup_def sint_i32_of_nat)
qed

lemma failing_rounds:
  "first_fds n t \<Longrightarrow> 1 \<le> n \<Longrightarrow> n + k \<le> 1024 \<Longrightarrow>
   \<exists>t'. leak_rounds (\<lambda>s. buggy_restore_round table_dup table_dup2 table_close s True) k t =
      (t', map word_of_nat [n..<n + k]) \<and> first_fds (n + k) t'"
proof (induction k arbitrary: n t)
  case (Suc k)
  obtain t1 where one: "buggy_restore_round table_dup table_dup2 table_close t True = (t1, Some (word_of_nat n))"
      "first_fds (Suc n) t1"
    using failing_round [of n t] Suc.prems by auto
  obtain t2 where two: "leak_rounds (\<lambda>s. buggy_restore_round table_dup table_dup2 table_close s True) k t1 =
      (t2, map word_of_nat [Suc n..<Suc n + k])" "first_fds (Suc n + k) t2"
    using Suc.IH [OF one(2)] Suc.prems by auto
  have "[n..<n + Suc k] = n # [Suc n..<Suc n + k]" by (simp add: upt_conv_Cons)
  then show ?case
    using one(1) two by (simp del: upt_Suc)
qed simp

lemma first_standard: "first_fds 3 standard_fds"
proof -
  have "unat fd < 3 \<longleftrightarrow> fd \<in> {0, 1, 2}" for fd :: i32
  proof -
    have "unat fd < 3 \<longleftrightarrow> unat fd = 0 \<or> unat fd = 1 \<or> unat fd = 2" by linarith
    then show ?thesis by (simp add: word_unat_eq_iff)
  qed
  then show ?thesis by (auto simp: first_fds_def standard_fds_def)
qed

theorem restore_rounds_leak_witness:
  "\<exists>t. leak_rounds (\<lambda>s. buggy_restore_round table_dup table_dup2 table_close s True) 2 standard_fds = (t, [3, 4]) \<and>
     dom t = dom standard_fds \<union> {3, 4}"
proof -
  obtain t where t: "leak_rounds (\<lambda>s. buggy_restore_round table_dup table_dup2 table_close s True) 2 standard_fds = (t, [3, 4])"
    using failing_rounds [OF first_standard, of 2] by (auto simp: upt_rec)
  show ?thesis
    using t restore_rounds_leak [OF posix.descriptor_table_axioms t] by auto
qed

text \<open>C36. What a spawn leaves of the descriptor table, on every path. A failed \<open>dup\<close> leaves
  it as it was; a failed \<open>dup2\<close> leaves a fresh copy of descriptor 0 open; a failed \<open>chdir\<close>
  leaves that copy open and descriptor 0 referring to the child's input. A successful spawn
  leaves the table as it was, unless the \<open>dup2\<close> that restores descriptor 0 fails, which the
  code does not look at: then descriptor 0 stays redirected and its only copy is closed.\<close>

theorem faux_spawn_outcomes:
  assumes "descriptor_table fds dup dup2 close_fd"
    and "\<And>s s' d r. chdir s d = (s', r) \<Longrightarrow> fds s' = fds s"
    and "faux_spawn_buggy dup dup2 close_fd chdir s child dir = (s', r)"
  shows "case r of
      Ok _ \<Rightarrow> fds s' = fds s \<or>
        (\<exists>saved t t' e. fds s saved = None \<and> fds t = redirected (fds s) saved child \<and>
          dup2 t saved 0 = (t', e) \<and> sint e < 0 \<and> fds s' = (fds t)(saved := None))
    | Err e \<Rightarrow> e = ''dup failed'' \<and> fds s' = fds s \<or>
        (\<exists>saved. fds s saved = None \<and> fds s 0 \<noteq> None \<and>
          (e = ''dup2 failed'' \<and> fds s' = (fds s)(saved := fds s 0) \<or>
           e = ''chdir failed'' \<and> fds s' = redirected (fds s) saved child))"
  by (rule descriptor_table.faux_spawn [OF assms(1) assms(3) assms(2)])

text \<open>The instances: a spawn whose \<open>chdir\<close> fails, and one that succeeds.\<close>

lemma table_spawn:
  "\<exists>t r. faux_spawn_buggy table_dup table_dup2 table_close (\<lambda>t d. (t, k)) (standard_fds(3 \<mapsto> 9)) 3 d = (t, r) \<and>
    (if k \<noteq> 0 then r = Err ''chdir failed'' else r = Ok ())"
proof -
  have "first_fds 4 (standard_fds(3 \<mapsto> 9))" using allocate_first(2) [OF first_standard, of 9] by simp
  from allocate_first(1) [OF this, of 0] show ?thesis
    by (simp add: faux_spawn_buggy_def STDIN_FILENO_def table_dup_def table_dup2_def table_close_def standard_fds_def)
qed

theorem faux_spawn_outcomes_witness:
  "(\<exists>t saved. faux_spawn_buggy table_dup table_dup2 table_close (\<lambda>t d. (t, - 1)) (standard_fds(3 \<mapsto> 9)) 3 ''/x''
      = (t, Err ''chdir failed'') \<and> t 0 = Some 9 \<and> t saved = Some 0 \<and> saved \<noteq> 0) \<and>
   faux_spawn_buggy table_dup table_dup2 table_close (\<lambda>t d. (t, 0)) (standard_fds(3 \<mapsto> 9)) 3 ''/''
      = (standard_fds(3 \<mapsto> 9), Ok ())"
proof -
  define t0 where "t0 = standard_fds(3 \<mapsto> 9)"
  note spawn = faux_spawn_outcomes [OF posix.descriptor_table_axioms]
  obtain t where t: "faux_spawn_buggy table_dup table_dup2 table_close (\<lambda>t d. (t, - 1)) t0 3 ''/x'' =
      (t, Err ''chdir failed'')"
    using table_spawn [of "- 1" "''/x''"] by (auto simp: t0_def)
  obtain saved where saved: "t0 saved = None" "t = redirected t0 saved 3"
    using spawn [OF _ t] by auto
  then have "saved \<noteq> 0" "saved \<noteq> 3" by (auto simp: t0_def standard_fds_def)
  then have one: "t 0 = Some 9 \<and> t saved = Some 0 \<and> saved \<noteq> 0"
    by (simp add: saved redirected_def t0_def standard_fds_def)
  obtain u where u: "faux_spawn_buggy table_dup table_dup2 table_close (\<lambda>t d. (t, 0)) t0 3 ''/'' = (u, Ok ())"
    using table_spawn [of 0 "''/''"] by (auto simp: t0_def)
  have restored: "0 \<le> sint e" if "table_dup2 (redirected t0 sv 3) sv 0 = (t', e)" "t0 sv = None" for sv t' e
    using that by (auto simp: table_dup2_def redirected_def t0_def standard_fds_def split: if_splits)
  have "u = t0"
    using spawn [OF _ u] restored by fastforce
  then show ?thesis using t one u unfolding t0_def by blast
qed

text \<open>C39. What both versions of the stack setup leave behind, by what the addition of the sizes
  and the mapping call do. A sum that overflows panics where overflow is checked, and nothing
  is mapped; a failed \<open>mmap\<close> is reported by both and nothing is mapped. Otherwise both fail,
  since the guard address is one byte past a page boundary, and return an error: the buggy
  one leaves exactly the new mapping its message names, the patched one has released it.\<close>

theorem get_stack_outcomes:
  assumes "mapping_table maps mmap mprotect munmap"
    and "mmap s 0 (sigstack_size + page_size) (PROT_READ OR PROT_WRITE) (MAP_PRIVATE OR MAP_ANON os) (- 1) 0 = (s0, p)"
    and "buggy_get_stack mmap mprotect os b s sigstack_size page_size = (s1, r1)"
    and "patched_get_stack mmap mprotect munmap os b s sigstack_size page_size = (s2, r2)"
  shows "maps s2 = maps s \<and>
    (if overflow_checks b \<and> 2 ^ 64 \<le> unat sigstack_size + unat page_size
     then r1 = Inl AddOverflow \<and> r2 = Inl AddOverflow \<and> maps s1 = maps s
     else if p = MAP_FAILED
     then r1 = Inr (Err mmap_failed) \<and> r2 = Inr (Err mmap_failed) \<and> maps s1 = maps s
     else r1 = Inr (Err (mprotect_failed_leaked p (sigstack_size + page_size))) \<and>
       r2 = Inr (Err mprotect_failed_released) \<and>
       maps s p = None \<and> maps s1 = (maps s)(p \<mapsto> sigstack_size + page_size))"
proof (cases "overflow_checks b \<and> 2 ^ 64 \<le> unat sigstack_size + unat page_size")
  case True
  then have "prim_add b sigstack_size page_size = Inl AddOverflow" by (simp add: prim_add_def)
  then show ?thesis using assms(3,4) True by (auto simp: buggy_get_stack_def patched_get_stack_def)
next
  case False
  then have "prim_add b sigstack_size page_size = Inr (sigstack_size + page_size)" by (auto simp: prim_add_def)
  note stacks = mapping_table.get_stack_maps [OF assms(1,2) this]
  show ?thesis using stacks(1) [OF assms(3)] stacks(2) [OF assms(4)] False by (auto split: if_splits)
qed

lemma find_first: "i < j \<Longrightarrow> P i \<Longrightarrow> find P [i..<j] = Some i"
  by (subst upt_conv_Cons) simp_all

lemma empty_table_mmap: "table_mmap (\<lambda>_. None) a len prot flags fd off = ((\<lambda>_. None)(4096 \<mapsto> len), 4096)"
proof -
  have "find (\<lambda>i. (\<lambda>_ :: usize. None :: usize option) (word_of_nat (4096 * i)) = None) [1..<1024] = Some 1"
    by (rule find_first) simp_all
  then show ?thesis by (simp only: table_mmap_def option.case) simp
qed

theorem get_stack_outcomes_witness:
  "\<exists>t. buggy_get_stack table_mmap table_mprotect Linux checked_build (\<lambda>_. None) 65536 16384 =
      (t, Inr (Err (mprotect_failed_leaked 4096 81920))) \<and> t = [4096 \<mapsto> 81920] \<and>
    patched_get_stack table_mmap table_mprotect table_munmap Linux checked_build (\<lambda>_. None) 65536 16384 =
      (\<lambda>_. None, Inr (Err mprotect_failed_released))"
proof -
  obtain t1 r1 t2 r2 where calls:
    "buggy_get_stack table_mmap table_mprotect Linux checked_build (\<lambda>_. None) 65536 16384 = (t1, r1)"
    "patched_get_stack table_mmap table_mprotect table_munmap Linux checked_build (\<lambda>_. None) 65536 16384 = (t2, r2)"
    by fastforce
  from get_stack_outcomes [OF kernel.mapping_table_axioms empty_table_mmap calls]
  have "r1 = Inr (Err (mprotect_failed_leaked 4096 81920))" "t1 = [4096 \<mapsto> 81920]"
    "r2 = Inr (Err mprotect_failed_released)" "t2 = (\<lambda>_. None)"
    by (simp_all add: MAP_FAILED_def)
  then show ?thesis using calls by blast
qed

section \<open>Outcomes of the programs\<close>

lemma main_026_outcome: "exit_of (snd (main_026 table_dup table_dup2 table_close standard_fds)) = Exited 0"
proof -
  obtain t where "leak_rounds (\<lambda>s. buggy_restore_round table_dup table_dup2 table_close s True) 16 standard_fds =
      (t, map word_of_nat [3..<3 + 16])"
    using failing_rounds [OF first_standard, of 16] by auto
  moreover have "list_all (\<lambda>fd. 2 < sint fd) (map word_of_nat [3..<3 + 16] :: i32 list)"
    by (auto simp: list_all_iff sint_i32_of_nat)
  ultimately show ?thesis
    by (simp add: main_026_def exit_simps del: upt_conv_Cons)
qed

lemma main_010_outcome:
  "exit_of (main_010 table_mmap table_mprotect table_munmap target b s) = Exited 0"
proof (cases target)
  case (Unix os)
  obtain s1 r1 where one: "buggy_get_stack table_mmap table_mprotect os b s 65536 16384 = (s1, r1)"
    by fastforce
  obtain s2 r2 where two: "patched_get_stack table_mmap table_mprotect table_munmap os b s1 65536 16384 = (s2, r2)"
    by fastforce
  have add: "prim_add b 65536 16384 = Inr ((65536 :: usize) + 16384)" by (simp add: prim_add_def)
  obtain s0 p where m: "table_mmap s 0 (65536 + 16384) (PROT_READ OR PROT_WRITE) (MAP_PRIVATE OR MAP_ANON os) (- 1) 0 = (s0, p)"
    by fastforce
  obtain s0' p' where m': "table_mmap s1 0 (65536 + 16384) (PROT_READ OR PROT_WRITE) (MAP_PRIVATE OR MAP_ANON os) (- 1) 0 = (s0', p')"
    by fastforce
  have "\<exists>e. r1 = Inr (Err e)" "\<exists>e. r2 = Inr (Err e)"
    using kernel.get_stack_maps(1) [OF m add one] kernel.get_stack_maps(2) [OF m' add two] by (auto split: if_splits)
  then show ?thesis using one two Unix by (auto simp: main_010_def exit_simps Let_def)
qed (simp add: main_010_def exit_simps)

lemma open_count_first:
  assumes "first_fds n t" "3 \<le> n" "n \<le> 256"
  shows "open_count table_fcntl t = n - 3"
proof -
  have "fd_is_open table_fcntl t (word_of_nat fd) = (fd < n)" if "fd < 256" for fd
    using assms(1) that by (simp add: posix.fd_is_open_iff first_fds_def unat_i32_of_nat)
  then have "filter (\<lambda>fd. fd_is_open table_fcntl t (word_of_nat fd)) [3..<256] = filter (\<lambda>fd. fd < n) [3..<256]"
    by (intro filter_cong refl) (simp only: set_upt atLeastLessThan_iff)
  moreover have split: "[3..<256] = [3..<n] @ [n..<256]"
    using upt_add_eq_append [of 3 n "256 - n"] assms by simp
  have "filter (\<lambda>fd. fd < n) [3..<256] = [3..<n]"
    unfolding split by (simp add: filter_id_conv filter_empty_conv)
  ultimately show ?thesis by (simp only: open_count_def length_upt)
qed

lemma panicking_read_file:
  assumes "first_fds n t" "n < 1024"
  shows "\<exists>t'. vulnerable_read_file_simulated table_open table_close t True = (t', Inl ExplicitPanic) \<and>
    first_fds (Suc n) t'"
proof -
  have "(word_of_nat n :: i32) \<noteq> - 1"
    using sint_i32_of_nat [of n] assms(2) by auto
  then show ?thesis
    using allocate_first [OF assms, of "length ''/dev/null''"]
    by (simp add: vulnerable_read_file_simulated_def table_open_def)
qed

lemma main_122_outcome: "exit_of (main_122 table_open table_close table_fcntl standard_fds) = Exited 0"
proof -
  obtain t1 where t1: "vulnerable_read_file_simulated table_open table_close standard_fds True = (t1, Inl ExplicitPanic)"
      "first_fds 4 t1" using panicking_read_file [OF first_standard] by auto
  obtain t2 where t2: "vulnerable_read_file_simulated table_open table_close t1 True = (t2, Inl ExplicitPanic)"
      "first_fds 5 t2" using panicking_read_file [OF t1(2)] by auto
  obtain t3 where t3: "vulnerable_read_file_simulated table_open table_close t2 True = (t3, Inl ExplicitPanic)"
      "first_fds 6 t3" using panicking_read_file [OF t2(2)] by auto
  show ?thesis
    using t1 t2 t3 open_count_first [OF t1(2)] open_count_first [OF t3(2)]
    by (simp add: main_122_def exit_simps)
qed

end
