(* ===== verification/Transitions.thy ===== *)
theory Transitions
  imports Prelude
begin

text \<open>
  What the concurrent programs share: runs of a step relation, invariants that every step
  keeps, and measures that every step lowers.
\<close>

locale step_invariant =
  fixes step :: "'s \<Rightarrow> 's \<Rightarrow> bool"
    and inv :: "'s \<Rightarrow> bool"
  assumes preserved: "step s t \<Longrightarrow> inv s \<Longrightarrow> inv t"
begin

lemma reachable: "step\<^sup>*\<^sup>* s t \<Longrightarrow> inv s \<Longrightarrow> inv t"
proof (induction rule: rtranclp_induct)
  case (step t u)
  then show ?case using preserved by blast
qed

end

text \<open>An invariant that counts the steps.\<close>

locale counted_invariant =
  fixes step :: "'s \<Rightarrow> 's \<Rightarrow> bool"
    and inv :: "nat \<Rightarrow> 's \<Rightarrow> bool"
  assumes counted: "step s t \<Longrightarrow> inv k s \<Longrightarrow> inv (Suc k) t"
begin

lemma run: "(step ^^ n) s t \<Longrightarrow> inv k s \<Longrightarrow> inv (k + n) t"
proof (induction n arbitrary: t)
  case (Suc n)
  from Suc.prems(1) obtain u where "(step ^^ n) s u" "step u t" by (rule relpowp_Suc_E)
  then show ?case using Suc.IH [of u] Suc.prems(2) counted by (metis add_Suc_right)
qed simp

end

locale decreasing_steps =
  fixes step :: "'s \<Rightarrow> 's \<Rightarrow> bool"
    and fuel :: "'s \<Rightarrow> nat"
  assumes decreases: "step s t \<Longrightarrow> fuel t < fuel s"
begin

lemma run_bound: "(step ^^ n) s t \<Longrightarrow> n + fuel t \<le> fuel s"
proof (induction n arbitrary: t)
  case (Suc n)
  from Suc.prems obtain u where "(step ^^ n) s u" "step u t" by (rule relpowp_Suc_E)
  then show ?case using Suc.IH [of u] decreases [of u t] by linarith
qed simp

text \<open>From every state a run reaches one that cannot step.\<close>

lemma finishes: "\<exists>t. step\<^sup>*\<^sup>* s t \<and> (\<nexists>u. step t u)"
proof (induction s rule: measure_induct_rule [where f = fuel])
  case (less s)
  show ?case
  proof (cases "\<exists>u. step s u")
    case True
    then obtain u where "step s u" by blast
    then show ?thesis using less [OF decreases] by (meson converse_rtranclp_into_rtranclp)
  qed blast
qed

end

text \<open>
  A forward simulation: under an invariant, a step of the detailed system is a step of the
  abstract one or invisible there. So runs map to runs.
\<close>

locale forward_simulation =
  fixes step :: "'s \<Rightarrow> 's \<Rightarrow> bool"
    and abstract_step :: "'a \<Rightarrow> 'a \<Rightarrow> bool"
    and inv :: "'s \<Rightarrow> bool"
    and abs :: "'s \<Rightarrow> 'a"
  assumes kept: "step s t \<Longrightarrow> inv s \<Longrightarrow> inv t"
    and simulated: "step s t \<Longrightarrow> inv s \<Longrightarrow> abs t = abs s \<or> abstract_step (abs s) (abs t)"
begin

lemma run_simulated:
  "step\<^sup>*\<^sup>* s t \<Longrightarrow> inv s \<Longrightarrow> inv t \<and> abstract_step\<^sup>*\<^sup>* (abs s) (abs t)"
proof (induction rule: rtranclp_induct)
  case (step t u)
  then have "inv t" "abstract_step\<^sup>*\<^sup>* (abs s) (abs t)" by auto
  then show ?case
    using kept [OF step.hyps(2)] simulated [OF step.hyps(2)] by (metis rtranclp.rtrancl_into_rtrancl)
qed simp

end

text \<open>
  A system that can always move towards a goal: where the goal does not hold, some step
  keeps the invariant and lowers the measure. Not every step needs to.
\<close>

locale reachable_goal =
  fixes step :: "'s \<Rightarrow> 's \<Rightarrow> bool"
    and inv goal :: "'s \<Rightarrow> bool"
    and work :: "'s \<Rightarrow> nat"
  assumes towards: "inv s \<Longrightarrow> \<not> goal s \<Longrightarrow> \<exists>t. step s t \<and> inv t \<and> work t < work s"
begin

lemma goal_reached: "inv s \<Longrightarrow> \<exists>t. step\<^sup>*\<^sup>* s t \<and> inv t \<and> goal t"
proof (induction s rule: measure_induct_rule [where f = work])
  case (less s)
  show ?case
  proof (cases "goal s")
    case False
    then obtain t where "step s t" "inv t" "work t < work s" using towards less.prems by blast
    then show ?thesis using less.IH by (meson converse_rtranclp_into_rtranclp)
  qed (use less.prems in blast)
qed

end

section \<open>Schedules\<close>

text \<open>Running a schedule: the moves in the order of a list, each of which must be possible.\<close>

fun schedule :: "('i \<Rightarrow> 's \<Rightarrow> 's option) \<Rightarrow> 'i list \<Rightarrow> 's \<Rightarrow> 's option" where
  "schedule move [] s = Some s"
| "schedule move (i # is) s = Option.bind (move i s) (schedule move is)"

lemma schedule_run:
  assumes "\<And>i s t. move i s = Some t \<Longrightarrow> step s t"
  shows "schedule move is s = Some t \<Longrightarrow> step\<^sup>*\<^sup>* s t"
proof (induction "is" arbitrary: s)
  case (Cons i "is")
  then obtain u where "move i s = Some u" "step\<^sup>*\<^sup>* u t" by (auto simp: bind_eq_Some_conv)
  then show ?case using assms by (blast intro: converse_rtranclp_into_rtranclp)
qed simp

section \<open>Memory orderings\<close>

text \<open>The orderings of atomic operations that the programs name, apart from the strongest one.\<close>

datatype mem_order = Relaxed | Acquire | Release

section \<open>Lists of threads\<close>

text \<open>Sums and counts over the threads when one of them steps.\<close>

lemma sum_list_map_update:
  fixes f :: "'a \<Rightarrow> nat"
  shows "i < length ts \<Longrightarrow> sum_list (map f (ts[i := t])) + f (ts ! i) = sum_list (map f ts) + f t"
proof (induction ts arbitrary: i)
  case (Cons x ts)
  then show ?case by (cases i) auto
qed simp

lemma length_filter_update:
  "i < length cs \<Longrightarrow>
   length (filter P (cs[i := c])) + (if P (cs ! i) then 1 else 0) =
   length (filter P cs) + (if P c then 1 else (0 :: nat))"
proof (induction cs arbitrary: i)
  case (Cons x cs)
  then show ?case by (cases i) (auto simp: add.commute split: if_splits)
qed simp

text \<open>A move of the thread at an index, which acts on what the threads share.\<close>

definition move_at :: "('m \<Rightarrow> 'c \<Rightarrow> ('m \<times> 'c) option) \<Rightarrow> nat \<Rightarrow> 'm \<times> 'c list \<Rightarrow> ('m \<times> 'c list) option" where
  "move_at act i st = (case st of (m, cs) \<Rightarrow>
     if i < length cs then map_option (\<lambda>(m', c'). (m', cs[i := c'])) (act m (cs ! i)) else None)"

lemma move_at_run:
  assumes "\<And>i m cs m' c'. i < length cs \<Longrightarrow> act m (cs ! i) = Some (m', c') \<Longrightarrow> step (m, cs) (m', cs[i := c'])"
    and "schedule (move_at act) is s = Some t"
  shows "step\<^sup>*\<^sup>* s t"
  using assms(2) by (rule schedule_run [rotated]) (auto simp: move_at_def intro: assms(1) split: prod.splits if_splits)

end
