(* ===== verification/Races.thy ===== *)
theory Races
  imports Transitions
begin

text \<open>
  Concurrent programs as step relations: a step is one atomic operation of one thread, a
  run any interleaving. The rebinding listener (041) keeps its shared state in a record and
  one program counter for each thread; the timed condition wait (067) is a loop over what
  its environment shows it.
\<close>

section \<open>The rebinding listener (041)\<close>

record shared_041 =
  FD_ALLOCATOR :: u32
  LIVE_FDS :: usize
  CLOSED_FDS :: usize
  listener_fd :: u32

text \<open>
  One accept and the \<open>close_fd(0)\<close> after it, split at every access to shared memory:
  \<open>alloc_fd\<close> twice, each two additions, the store of the new descriptor, and \<open>close_fd\<close>, a
  subtraction and an addition. \<open>left\<close> counts the iterations of the thread that are not
  finished.
\<close>

datatype pc_041 = StreamLive | StreamFd | NewLive | NewFd | StoreFd u32 | CloseLive | CloseCount

record thread_041 =
  pc :: pc_041
  left :: nat

definition step_thread_041 :: "shared_041 \<Rightarrow> thread_041 \<Rightarrow> (shared_041 \<times> thread_041) option" where
  "step_thread_041 s t =
     (if left t = 0 then None
      else Some (case pc t of
          StreamLive \<Rightarrow> (s\<lparr>LIVE_FDS := LIVE_FDS s + 1\<rparr>, t\<lparr>pc := StreamFd\<rparr>)
        | StreamFd \<Rightarrow> (s\<lparr>FD_ALLOCATOR := FD_ALLOCATOR s + 1\<rparr>, t\<lparr>pc := NewLive\<rparr>)
        | NewLive \<Rightarrow> (s\<lparr>LIVE_FDS := LIVE_FDS s + 1\<rparr>, t\<lparr>pc := NewFd\<rparr>)
        | NewFd \<Rightarrow> (s\<lparr>FD_ALLOCATOR := FD_ALLOCATOR s + 1\<rparr>, t\<lparr>pc := StoreFd (FD_ALLOCATOR s)\<rparr>)
        | StoreFd new_fd \<Rightarrow> (s\<lparr>listener_fd := new_fd\<rparr>, t\<lparr>pc := CloseLive\<rparr>)
        | CloseLive \<Rightarrow> (s\<lparr>LIVE_FDS := LIVE_FDS s - 1\<rparr>, t\<lparr>pc := CloseCount\<rparr>)
        | CloseCount \<Rightarrow> (s\<lparr>CLOSED_FDS := CLOSED_FDS s + 1\<rparr>, t\<lparr>pc := StreamLive, left := left t - 1\<rparr>)))"

inductive step_041 :: "shared_041 \<times> thread_041 list \<Rightarrow> shared_041 \<times> thread_041 list \<Rightarrow> bool" where
  thread: "i < length ts \<Longrightarrow> step_thread_041 s (ts ! i) = Some (s', t') \<Longrightarrow>
    step_041 (s, ts) (s', ts[i := t'])"

inductive_cases step_041E: "step_041 (s, ts) st'"

text \<open>The run of a schedule, the list of the threads that step; \<open>None\<close> when one cannot.\<close>

fun run_041 :: "nat list \<Rightarrow> shared_041 \<times> thread_041 list \<Rightarrow> (shared_041 \<times> thread_041 list) option" where
  "run_041 [] st = Some st"
| "run_041 (i # is) (s, ts) =
     (if i < length ts
      then (case step_thread_041 s (ts ! i) of
              None \<Rightarrow> None
            | Some (s', t') \<Rightarrow> run_041 is (s', ts[i := t']))
      else None)"

lemma run_041_steps: "run_041 is st = Some st' \<Longrightarrow> (step_041 ^^ length is) st st'"
proof (induction "is" st rule: run_041.induct)
  case (2 i "is" s ts)
  then obtain s1 t1 where one: "i < length ts" "step_thread_041 s (ts ! i) = Some (s1, t1)"
    by (auto split: if_splits option.splits)
  then have "(step_041 ^^ length is) (s1, ts[i := t1]) st'" using 2 by simp
  then show ?case
    unfolding length_Cons using step_041.thread [OF one] by (rule relpowp_Suc_I2 [rotated])
qed simp

text \<open>Before the threads start the listener holds the first descriptor.\<close>

definition init_041 :: "nat \<Rightarrow> nat \<Rightarrow> shared_041 \<times> thread_041 list" where
  "init_041 threads iterations =
     (\<lparr>FD_ALLOCATOR = 1000 + 1, LIVE_FDS = 0 + 1, CLOSED_FDS = 0, listener_fd = 1000\<rparr>,
      replicate threads \<lparr>pc = StreamLive, left = iterations\<rparr>)"

definition joined_041 :: "shared_041 \<times> thread_041 list \<Rightarrow> bool" where
  "joined_041 st \<longleftrightarrow> list_all (\<lambda>t. left t = 0) (snd st)"

text \<open>After the join \<open>main\<close> drops the listener and reads the number of live descriptors.\<close>

definition close_fd_041 :: "shared_041 \<Rightarrow> shared_041" where
  "close_fd_041 s = s\<lparr>LIVE_FDS := LIVE_FDS s - 1, CLOSED_FDS := CLOSED_FDS s + 1\<rparr>"

definition main_041 :: "shared_041 \<times> thread_041 list \<Rightarrow> unit io" where
  "main_041 st =
     (let s = close_fd_041 (fst st); leaked = LIVE_FDS s in block
        [println [VNat (unat leaked)], assert_that (leaked > 0), println [VNat (unat leaked)]])"

text \<open>The progress of a thread: atomic operations done, and what they added to the counters.\<close>

fun offset_041 :: "pc_041 \<Rightarrow> nat \<times> nat" where
  "offset_041 StreamLive = (0, 0)"
| "offset_041 StreamFd = (1, 1)"
| "offset_041 NewLive = (2, 1)"
| "offset_041 NewFd = (3, 2)"
| "offset_041 (StoreFd fd) = (4, 2)"
| "offset_041 CloseLive = (5, 2)"
| "offset_041 CloseCount = (6, 1)"

definition thread_ok_041 :: "nat \<Rightarrow> thread_041 \<Rightarrow> bool" where
  "thread_ok_041 n t \<longleftrightarrow> left t \<le> n \<and> (left t = 0 \<longrightarrow> pc t = StreamLive)"

definition done_041 :: "nat \<Rightarrow> thread_041 \<Rightarrow> nat" where
  "done_041 n t = 7 * (n - left t) + fst (offset_041 (pc t))"

definition live_041 :: "nat \<Rightarrow> thread_041 \<Rightarrow> nat" where
  "live_041 n t = (n - left t) + snd (offset_041 (pc t))"

definition inv_041 :: "nat \<Rightarrow> nat \<Rightarrow> nat \<Rightarrow> shared_041 \<times> thread_041 list \<Rightarrow> bool" where
  "inv_041 threads n k st \<longleftrightarrow>
     (case st of (s, ts) \<Rightarrow>
        length ts = threads \<and> list_all (thread_ok_041 n) ts \<and>
        sum_list (map (done_041 n) ts) = k \<and>
        LIVE_FDS s = word_of_nat (1 + sum_list (map (live_041 n) ts)) \<and>
        CLOSED_FDS s = word_of_nat (sum_list (map (\<lambda>t. n - left t) ts)))"

lemma step_thread_progress:
  assumes "step_thread_041 s t = Some (s', t')" "thread_ok_041 n t"
  shows "thread_ok_041 n t'"
    and "done_041 n t' = Suc (done_041 n t)"
    and "LIVE_FDS s' + word_of_nat (live_041 n t) = LIVE_FDS s + word_of_nat (live_041 n t')"
    and "CLOSED_FDS s' + word_of_nat (n - left t) = CLOSED_FDS s + word_of_nat (n - left t')"
proof -
  have l: "0 < left t" "left t \<le> n"
    using assms by (auto simp: step_thread_041_def thread_ok_041_def split: if_splits)
  then have d: "n - (left t - 1) = Suc (n - left t)" by linarith
  show "thread_ok_041 n t'" "done_041 n t' = Suc (done_041 n t)"
    "LIVE_FDS s' + word_of_nat (live_041 n t) = LIVE_FDS s + word_of_nat (live_041 n t')"
    "CLOSED_FDS s' + word_of_nat (n - left t) = CLOSED_FDS s + word_of_nat (n - left t')"
    using assms l d
    by (auto simp: step_thread_041_def thread_ok_041_def done_041_def live_041_def algebra_simps
        split: pc_041.splits if_splits)
qed

lemma shift_count:
  fixes x y a b c d e :: "'a::len word"
  assumes "x + a = y + b" "c + a = d + b" "y = e + d"
  shows "x = e + c"
proof -
  have "x + a = (e + c) + a" using assms by (simp add: add.assoc)
  then show ?thesis by (simp only: add_right_cancel)
qed

lemma inv_step_041:
  assumes "step_041 st st'" "inv_041 threads n k st"
  shows "inv_041 threads n (Suc k) st'"
  using assms
proof (induction rule: step_041.induct)
  case (thread i ts s s' t')
  let ?ts = "ts[i := t']"
  have len: "length ts = threads" and ok: "list_all (thread_ok_041 n) ts"
    and sums: "sum_list (map (done_041 n) ts) = k"
      "LIVE_FDS s = word_of_nat (1 + sum_list (map (live_041 n) ts))"
      "CLOSED_FDS s = word_of_nat (sum_list (map (\<lambda>t. n - left t) ts))"
    using thread.prems by (simp_all add: inv_041_def)
  have oki: "thread_ok_041 n (ts ! i)" using ok thread.hyps(1) by (simp add: list_all_length)
  note p = step_thread_progress [OF thread.hyps(2) oki]
  note u = sum_list_map_update [OF thread.hyps(1), of _ t']
  have "list_all (thread_ok_041 n) ?ts"
    using ok p(1) set_update_subset_insert [of ts i t'] by (auto simp: list_all_iff)
  moreover have "sum_list (map (done_041 n) ?ts) = Suc k"
    using u [of "done_041 n"] p(2) sums(1) by simp
  moreover have "LIVE_FDS s' = word_of_nat (1 + sum_list (map (live_041 n) ?ts))"
  proof -
    have "(word_of_nat (sum_list (map (live_041 n) ?ts) + live_041 n (ts ! i)) :: usize) =
        word_of_nat (sum_list (map (live_041 n) ts) + live_041 n t')"
      by (simp only: u)
    then show ?thesis
      using shift_count [OF p(3), of "word_of_nat (sum_list (map (live_041 n) ?ts))" _ 1] sums(2)
      by (simp add: ac_simps)
  qed
  moreover have "CLOSED_FDS s' = word_of_nat (sum_list (map (\<lambda>t. n - left t) ?ts))"
  proof -
    have "(word_of_nat (sum_list (map (\<lambda>t. n - left t) ?ts) + (n - left (ts ! i))) :: usize) =
        word_of_nat (sum_list (map (\<lambda>t. n - left t) ts) + (n - left t'))"
      by (rule arg_cong [where f = word_of_nat, OF u [of "\<lambda>t. n - left t"]])
    then show ?thesis
      using shift_count [OF p(4), of "word_of_nat (sum_list (map (\<lambda>t. n - left t) ?ts))" _ 0] sums(3)
      by (simp add: ac_simps)
  qed
  ultimately show ?case using len by (simp add: inv_041_def)
qed

lemma inv_init_041: "inv_041 threads n 0 (init_041 threads n)"
  by (auto simp: inv_041_def init_041_def thread_ok_041_def done_041_def live_041_def
      list_all_iff sum_list_replicate)

interpretation accepts: counted_invariant step_041 "inv_041 threads n"
  by unfold_locales (rule inv_step_041)

lemma inv_steps_041: "(step_041 ^^ k) (init_041 threads n) st \<Longrightarrow> inv_041 threads n k st"
  using accepts.run [OF _ inv_init_041] by fastforce

lemma joined_counts:
  assumes "inv_041 threads n k (s, ts)" "joined_041 (s, ts)"
  shows "k = 7 * (threads * n)" "LIVE_FDS s = word_of_nat (1 + threads * n)"
    "CLOSED_FDS s = word_of_nat (threads * n)"
proof -
  have t: "length ts = threads" "\<And>t. t \<in> set ts \<Longrightarrow> left t = 0 \<and> pc t = StreamLive"
    using assms by (auto simp: inv_041_def joined_041_def list_all_iff thread_ok_041_def)
  have const: "map f ts = replicate threads c" if "\<And>t. t \<in> set ts \<Longrightarrow> f t = c" for f :: "thread_041 \<Rightarrow> nat" and c
    using that t(1) by (metis map_cong map_replicate_const)
  have "map (done_041 n) ts = replicate threads (7 * n)" "map (live_041 n) ts = replicate threads n"
    "map (\<lambda>t. n - left t) ts = replicate threads n"
    using t(2) by (auto simp: done_041_def live_041_def intro!: const)
  then show "k = 7 * (threads * n)" "LIVE_FDS s = word_of_nat (1 + threads * n)"
    "CLOSED_FDS s = word_of_nat (threads * n)"
    using assms(1) by (simp_all add: inv_041_def sum_list_replicate mult.left_commute)
qed

lemma steps_bounded_041: "inv_041 threads n k st \<Longrightarrow> k \<le> 7 * (threads * n)"
proof -
  assume inv: "inv_041 threads n k st"
  obtain s ts where st: "st = (s, ts)" by fastforce
  have "done_041 n t \<le> 7 * n" if "t \<in> set ts" for t
    using inv that by (cases "pc t") (auto simp: inv_041_def st list_all_iff thread_ok_041_def done_041_def)
  then have "sum_list (map (done_041 n) ts) \<le> sum_list (map (\<lambda>_. 7 * n) ts)"
    by (rule sum_list_mono)
  then show ?thesis using inv by (simp add: inv_041_def st sum_list_triv ac_simps)
qed

lemma progress_041: "\<not> joined_041 st \<Longrightarrow> \<exists>st'. step_041 st st'"
proof -
  assume "\<not> joined_041 st"
  then obtain s ts i where st: "st = (s, ts)" "i < length ts" "left (ts ! i) \<noteq> 0"
    by (cases st) (auto simp: joined_041_def list_all_length)
  then obtain s' t' where "step_thread_041 s (ts ! i) = Some (s', t')"
    by (cases "pc (ts ! i)") (simp_all add: step_thread_041_def)
  then show ?thesis using step_041.thread st by blast
qed

text \<open>C11. Every interleaving of the accept threads has at most seven steps for each accept,
  can go on until all threads have finished, and then ends with one live descriptor for each
  accept after the listener is dropped, in whatever order the stores happened. A single
  thread, which has nothing to race with, leaks just as many.\<close>

theorem accept_leaks_always:
  assumes "(step_041 ^^ k) (init_041 threads n) (s, ts)"
  shows "k \<le> 7 * (threads * n) \<and>
    (if joined_041 (s, ts)
     then k = 7 * (threads * n) \<and> LIVE_FDS (close_fd_041 s) = word_of_nat (threads * n) \<and>
       CLOSED_FDS (close_fd_041 s) = word_of_nat (threads * n + 1)
     else (\<exists>st'. step_041 (s, ts) st'))"
proof -
  have inv: "inv_041 threads n k (s, ts)" by (rule inv_steps_041 [OF assms])
  show ?thesis
    using steps_bounded_041 [OF inv] joined_counts [OF inv] progress_041 [of "(s, ts)"]
    by (simp add: close_fd_041_def)
qed

theorem accept_leaks_always_witness:
  "\<exists>s ts. run_041 (replicate 7 0) (init_041 1 1) = Some (s, ts) \<and>
     joined_041 (s, ts) \<and> LIVE_FDS (close_fd_041 s) = 1"
proof -
  obtain s ts where run: "run_041 (replicate 7 0) (init_041 1 1) = Some (s, ts)" "joined_041 (s, ts)"
    by (simp add: init_041_def step_thread_041_def joined_041_def numeral_eq_Suc)
  from run(1) have "(step_041 ^^ 7) (init_041 1 1) (s, ts)"
    using run_041_steps [of "replicate 7 0"] by fastforce
  from accept_leaks_always [OF this] run show ?thesis by simp
qed

lemma main_041_outcome:
  assumes "(step_041 ^^ k) (init_041 8 2000) st" "joined_041 st"
  shows "exit_of (main_041 st) = Exited 0"
proof -
  obtain s ts where st: "st = (s, ts)" by fastforce
  have "LIVE_FDS s = word_of_nat (1 + 8 * 2000)"
    using joined_counts(2) [OF inv_steps_041] assms unfolding st by blast
  then show ?thesis by (simp add: main_041_def close_fd_041_def st exit_simps Let_def)
qed

section \<open>The timed condition wait (067)\<close>

text \<open>
  What the loop sees of its environment, one entry for each evaluation of the condition: the
  guarded value at that moment, the time elapsed since the start when it is read next, and
  the result of the wait that may follow, which the code binds to \<open>_wtr\<close>. \<open>None\<close> is a loop
  that is still waiting when the observations end.
\<close>

type_synonym observation = "bool \<times> nat \<times> bool"

fun buggy_wait_timeout_while :: "nat \<Rightarrow> (bool \<Rightarrow> bool) \<Rightarrow> observation list \<Rightarrow> bool option" where
  "buggy_wait_timeout_while dur condition [] = None"
| "buggy_wait_timeout_while dur condition ((guard, elapsed, wtr) # obs) =
     (if condition guard then
        (if dur < elapsed then Some True
         else buggy_wait_timeout_while dur condition obs)
      else Some False)"

text \<open>The loop goes on while the condition holds before the deadline; at the first
  evaluation where that ends it reports a timeout if the condition still holds, and success
  if it does not, even when that evaluation comes after the deadline and the wait had
  returned by timing out.\<close>

theorem wait_timeout_reports:
  "buggy_wait_timeout_while dur condition obs =
     (case dropWhile (\<lambda>(guard, elapsed, wtr). condition guard \<and> elapsed \<le> dur) obs of
        [] \<Rightarrow> None
      | (guard, elapsed, wtr) # rest \<Rightarrow> Some (condition guard))"
  by (induction dur condition obs rule: buggy_wait_timeout_while.induct) auto

text \<open>
  \<open>main\<close>, in milliseconds: the waiter waits for at most 20 while \<open>main\<close> holds the lock
  from about 5 to 85 and then sets the flag. What the waiter's loop observes of that is an
  argument, and so is the time that its call took.
\<close>

definition main_067 :: "observation list \<Rightarrow> nat \<Rightarrow> unit io option" where
  "main_067 obs elapsed =
     (case buggy_wait_timeout_while 20 (\<lambda>done. \<not> done) obs of
        None \<Rightarrow> None
      | Some timed_out \<Rightarrow> Some (block
          [assert_that (50 \<le> elapsed), assert_that (\<not> timed_out),
           println [VNat elapsed, VBool timed_out]]))"

text \<open>
  On the intended schedule the first evaluation comes in time and the second after the lock
  is free again, so the assertions hold although the wait has timed out. A waiter that gets
  the lock only after \<open>main\<close> never waits, and then the first assertion fails unless that
  took 50 all the same.
\<close>

lemma main_067_outcomes:
  "t \<le> 20 \<Longrightarrow> 50 \<le> elapsed \<Longrightarrow>
     \<exists>m. main_067 [(False, t, True), (True, t', wtr)] elapsed = Some m \<and> exit_of m = Exited 0"
  "\<exists>m. main_067 [(True, t, wtr)] elapsed = Some m \<and>
     exit_of m = (if 50 \<le> elapsed then Exited 0 else Panicked AssertFailed)"
  by (simp_all add: main_067_def exit_simps)

end
