(* ===== verification/Spin_Mutex.thy ===== *)
theory Spin_Mutex
  imports Transitions
begin

text \<open>
  The spin mutex that is skipped when dispatching is disabled (107): the program points of a
  call on each of any number of cores, mutual exclusion, the refinement of a mutex whose
  calls are atomic, and the update that is lost without the lock.
\<close>

section \<open>The spin mutex (107)\<close>

definition sns_dsp :: "bool \<Rightarrow> i32" where
  "sns_dsp FAKE_DSP_DISABLED = (if FAKE_DSP_DISABLED then 1 else 0)"

record 'a spin_mutex =
  locked :: bool
  data :: 'a

definition spin_mutex_new :: "'a \<Rightarrow> 'a spin_mutex" where
  "spin_mutex_new x = \<lparr>locked = False, data = x\<rparr>"

text \<open>
  One call of \<open>with_locked_buggy\<close> on a core, split at its accesses to shared memory: the
  dispatch query, a swap of the spin loop, the closure's read and its write through the
  \<open>&mut T\<close>, and the release. \<open>Inside\<close>, \<open>Updating\<close> and \<open>Leaving\<close> carry the local
  \<open>took_lock\<close>, \<open>Updating\<close> also what the closure has read. The closure is given by the
  value \<open>f x\<close> it writes when it reads \<open>x\<close>.
\<close>

datatype 'a core_107 = Entering | Spinning | Inside bool | Updating bool 'a | Leaving bool | Left

fun step_core_107 ::
  "i32 \<Rightarrow> ('a \<Rightarrow> 'a) \<Rightarrow> 'a spin_mutex \<Rightarrow> 'a core_107 \<Rightarrow> ('a spin_mutex \<times> 'a core_107) option" where
  "step_core_107 dsp f m Entering = Some (m, if dsp = 0 then Spinning else Inside False)"
| "step_core_107 dsp f m Spinning =
     Some (m\<lparr>locked := True\<rparr>, if locked m then Spinning else Inside True)"
| "step_core_107 dsp f m (Inside took) = Some (m, Updating took (data m))"
| "step_core_107 dsp f m (Updating took x) = Some (m\<lparr>data := f x\<rparr>, Leaving took)"
| "step_core_107 dsp f m (Leaving took) = Some (if took then m\<lparr>locked := False\<rparr> else m, Left)"
| "step_core_107 dsp f m Left = None"

type_synonym 'a cores = "'a spin_mutex \<times> 'a core_107 list"

inductive step_107 :: "i32 \<Rightarrow> ('a \<Rightarrow> 'a) \<Rightarrow> 'a cores \<Rightarrow> 'a cores \<Rightarrow> bool"
  for dsp :: i32 and f :: "'a \<Rightarrow> 'a" where
  core: "i < length cs \<Longrightarrow> step_core_107 dsp f m (cs ! i) = Some (m', c') \<Longrightarrow>
    step_107 dsp f (m, cs) (m', cs[i := c'])"

text \<open>The same call on a single core: \<open>None\<close> is a spin that never ends.\<close>

definition with_locked_buggy :: "i32 \<Rightarrow> ('a \<Rightarrow> 'r \<times> 'a) \<Rightarrow> 'a spin_mutex \<Rightarrow> ('a spin_mutex \<times> 'r \<times> bool) option" where
  "with_locked_buggy dsp f m =
     (let enter = (if dsp = 0
          then (if locked m then None else Some (m\<lparr>locked := True\<rparr>, True))
          else Some (m, False))
      in case enter of
           None \<Rightarrow> None
         | Some (m, took_lock) \<Rightarrow>
             (let (r, x) = f (data m);
                  m = m\<lparr>data := x\<rparr>;
                  m = (if took_lock then m\<lparr>locked := False\<rparr> else m)
              in Some (m, r, took_lock)))"

definition main_107 :: "unit io option" where
  "main_107 =
     (let m = spin_mutex_new (0 :: u32); FAKE_DSP_DISABLED = True in
      case with_locked_buggy (sns_dsp FAKE_DSP_DISABLED) (\<lambda>x. (42, 42)) m of
        None \<Rightarrow> None
      | Some (m, v :: u32, took) \<Rightarrow>
          (let raw_locked = locked m in Some (block
             [println [VBool took, VBool raw_locked],
              assert_that (took = False),
              assert_that (raw_locked = False),
              println []])))"

lemma main_107_outcome: "\<exists>m. main_107 = Some m \<and> exit_of m = Exited 0"
  by (simp add: main_107_def spin_mutex_new_def with_locked_buggy_def sns_dsp_def exit_simps)

section \<open>Mutual exclusion\<close>

fun has_lock :: "'a core_107 \<Rightarrow> bool" where
  "has_lock (Inside took) = took"
| "has_lock (Updating took x) = took"
| "has_lock (Leaving took) = took"
| "has_lock c = False"

text \<open>A core past the dispatch query without the lock.\<close>

fun unlocked :: "'a core_107 \<Rightarrow> bool" where
  "unlocked (Inside took) = (\<not> took)"
| "unlocked (Updating took x) = (\<not> took)"
| "unlocked (Leaving took) = (\<not> took)"
| "unlocked c = False"

fun written :: "'a core_107 \<Rightarrow> bool" where
  "written (Leaving took) = True"
| "written Left = True"
| "written c = False"

text \<open>The cores that hold a \<open>&mut T\<close>.\<close>

fun holds_ref :: "'a core_107 \<Rightarrow> bool" where
  "holds_ref (Inside took) = True"
| "holds_ref (Updating took x) = True"
| "holds_ref c = False"

definition holders :: "'a core_107 list \<Rightarrow> nat" where
  "holders cs = length (filter holds_ref cs)"

text \<open>
  With dispatching enabled every core inside has taken the lock, at most one has it, and
  what it has read is still the contents.
\<close>

fun read_is :: "'a \<Rightarrow> 'a core_107 \<Rightarrow> bool" where
  "read_is d (Updating took x) = (x = d)"
| "read_is d c = True"

definition lock_inv :: "'a cores \<Rightarrow> bool" where
  "lock_inv st \<longleftrightarrow> (case st of (m, cs) \<Rightarrow>
     list_all (\<lambda>c. \<not> unlocked c) cs \<and>
     length (filter has_lock cs) = (if locked m then 1 else 0) \<and>
     list_all (read_is (data m)) cs)"

lemma single_holder:
  assumes "length (filter P cs) = 1" "i < length cs" "P (cs ! i)"
  shows "c \<in> set (cs[i := c']) \<Longrightarrow> c = c' \<or> \<not> P c"
proof -
  assume c: "c \<in> set (cs[i := c'])"
  show ?thesis
  proof (cases "P c'")
    case False
    then have "filter P (cs[i := c']) = []"
      using length_filter_update [OF assms(2), of P c'] assms(1,3) by simp
    then show ?thesis using c by (auto simp: filter_empty_conv)
  next
    case True
    obtain j where j: "j < length cs" "c = (cs[i := c']) ! j" using c by (auto simp: in_set_conv_nth)
    show ?thesis
    proof (cases "j = i")
      case False
      have "\<not> P (cs ! j)"
      proof
        assume "P (cs ! j)"
        then have "{i, j} \<subseteq> {k. k < length cs \<and> P (cs ! k)}" using assms(2,3) j(1) by auto
        then have "card {i, j} \<le> length (filter P cs)"
          unfolding length_filter_conv_card by (rule card_mono [rotated]) simp
        then show False using False assms(1) by simp
      qed
      then show ?thesis using j False by simp
    qed (use j in simp)
  qed
qed

lemma lock_inv_step:
  assumes "step_107 0 f st st'" "lock_inv st"
  shows "lock_inv st'"
  using assms
proof (induction rule: step_107.induct)
  case (core i cs m m' c')
  have un: "list_all (\<lambda>c. \<not> unlocked c) cs"
    and holds: "length (filter has_lock cs) = (if locked m then 1 else 0)"
    and upd: "list_all (read_is (data m)) cs"
    using core.prems by (simp_all add: lock_inv_def)
  have old: "cs ! i \<in> set cs" "\<not> unlocked (cs ! i)"
    using core.hyps(1) un by (simp_all add: list_all_length)
  have locked: "has_lock (cs ! i) \<Longrightarrow> locked m"
    using old(1) holds by (metis filter_empty_conv length_0_conv)
  note n = length_filter_update [OF core.hyps(1), of has_lock c']
  have "\<not> unlocked c'" "length (filter has_lock (cs[i := c'])) = (if locked m' then 1 else 0)"
    using core.hyps(2) old locked holds n
    by (cases "cs ! i"; auto simp del: length_filter_conv_card split: if_splits)+
  moreover have "list_all (\<lambda>c. \<not> unlocked c) (cs[i := c'])"
    using un \<open>\<not> unlocked c'\<close> set_update_subset_insert [of cs i c'] by (auto simp: list_all_iff)
  moreover have "list_all (read_is (data m')) (cs[i := c'])"
  proof (cases "data m' = data m")
    case True
    have "read_is (data m) c'"
      using core.hyps(2) upd old(1) by (cases "cs ! i") (auto simp: list_all_iff split: if_splits)
    then show ?thesis
      using upd set_update_subset_insert [of cs i c'] unfolding True list_all_iff by blast
  next
    case False
    then obtain took x where c: "cs ! i = Updating took x" "c' = Leaving took"
      using core.hyps(2) by (cases "cs ! i") (auto split: if_splits)
    then have "has_lock (cs ! i)" using old(2) by simp
    then have "length (filter has_lock cs) = 1" using locked holds by simp
    from single_holder [OF this core.hyps(1) \<open>has_lock (cs ! i)\<close>, of _ c']
    have other: "c = c' \<or> \<not> has_lock c" if "c \<in> set (cs[i := c'])" for c using that by blast
    have "read_is (data m') d" if "d \<in> set (cs[i := c'])" for d
      using other [OF that] \<open>list_all (\<lambda>c. \<not> unlocked c) (cs[i := c'])\<close> that c(2)
      by (cases d) (auto simp: list_all_iff)
    then show ?thesis by (simp add: list_all_iff)
  qed
  ultimately show ?case by (simp add: lock_inv_def)
qed

lemma lock_inv_start:
  "\<not> locked m \<Longrightarrow> lock_inv (m, replicate n Entering)"
  by (simp add: lock_inv_def list_all_iff)

interpretation spin: step_invariant "step_107 0 f" lock_inv
  by unfold_locales (rule lock_inv_step)

lemma holders_le_has_lock:
  "list_all (\<lambda>c. \<not> unlocked c) cs \<Longrightarrow> holders cs \<le> length (filter has_lock cs)"
proof (induction cs)
  case (Cons c cs)
  then show ?case by (cases c) (auto simp: holders_def)
qed (simp add: holders_def)

lemma two_inside:
  assumes "dsp \<noteq> 0" "2 \<le> n"
  shows "\<exists>cs. (step_107 dsp f)\<^sup>*\<^sup>* (m, replicate n Entering) (m, cs) \<and> 2 \<le> holders cs"
proof -
  obtain k where "n = 2 + k" using assms(2) le_Suc_ex by blast
  then have n: "n = Suc (Suc k)" by simp
  let ?rest = "replicate k Entering"
  have "step_107 dsp f (m, replicate n Entering) (m, Inside False # Entering # ?rest)"
    using step_107.core [of 0 "replicate n Entering" dsp f m] assms(1) by (simp add: n)
  moreover have "step_107 dsp f (m, Inside False # Entering # ?rest) (m, Inside False # Inside False # ?rest)"
    using step_107.core [of 1 "Inside False # Entering # ?rest" dsp f m] assms(1) by simp
  moreover have "2 \<le> holders (Inside False # Inside False # ?rest)" by (simp add: holders_def)
  ultimately show ?thesis by (meson converse_rtranclp_into_rtranclp r_into_rtranclp)
qed

text \<open>C9. Two cores can hold the mutable reference at the same time if and only if dispatching
  is disabled when they enter: with the dispatch query at 0 the spin lock excludes them in
  every interleaving of any number of cores, otherwise it is never consulted.\<close>

theorem spin_mutex_exclusion:
  assumes "\<not> locked m" "2 \<le> n"
  shows "(\<exists>m' cs. (step_107 dsp f)\<^sup>*\<^sup>* (m, replicate n Entering) (m', cs) \<and> 2 \<le> holders cs) = (dsp \<noteq> 0)"
proof
  assume "\<exists>m' cs. (step_107 dsp f)\<^sup>*\<^sup>* (m, replicate n Entering) (m', cs) \<and> 2 \<le> holders cs"
  then obtain m' cs where r: "(step_107 dsp f)\<^sup>*\<^sup>* (m, replicate n Entering) (m', cs)" "2 \<le> holders cs"
    by blast
  show "dsp \<noteq> 0"
  proof
    assume "dsp = 0"
    then have "lock_inv (m', cs)" using spin.reachable r(1) lock_inv_start assms(1) by blast
    then show False
      using holders_le_has_lock [of cs] r(2) by (auto simp: lock_inv_def split: if_splits)
  qed
next
  assume "dsp \<noteq> 0"
  then show "\<exists>m' cs. (step_107 dsp f)\<^sup>*\<^sup>* (m, replicate n Entering) (m', cs) \<and> 2 \<le> holders cs"
    using two_inside assms(2) by blast
qed

theorem spin_mutex_exclusion_witness:
  "(\<exists>m' cs. (step_107 (sns_dsp True) Suc)\<^sup>*\<^sup>* (spin_mutex_new 0, replicate 2 Entering) (m', cs) \<and> 2 \<le> holders cs) \<and>
   \<not> (\<exists>m' cs. (step_107 (sns_dsp False) Suc)\<^sup>*\<^sup>* (spin_mutex_new 0, replicate 2 Entering) (m', cs) \<and> 2 \<le> holders cs)"
proof -
  have "\<not> locked (spin_mutex_new (0 :: nat))" by (simp add: spin_mutex_new_def)
  from spin_mutex_exclusion [OF this, of 2 "sns_dsp True" Suc]
    spin_mutex_exclusion [OF this, of 2 "sns_dsp False" Suc]
  show ?thesis by (simp add: sns_dsp_def)
qed

section \<open>The calls are atomic\<close>

text \<open>
  The specification: the contents and which cores have made their call; a step is a whole
  call of a core that has not.
\<close>

inductive atomic_call :: "('a \<Rightarrow> 'a) \<Rightarrow> 'a \<times> bool list \<Rightarrow> 'a \<times> bool list \<Rightarrow> bool"
  for f :: "'a \<Rightarrow> 'a" where
  call: "i < length done \<Longrightarrow> \<not> done ! i \<Longrightarrow> atomic_call f (x, done) (f x, done[i := True])"

definition abs_107 :: "'a cores \<Rightarrow> 'a \<times> bool list" where
  "abs_107 st = (case st of (m, cs) \<Rightarrow> (data m, map written cs))"

lemma abs_step:
  assumes "step_107 0 f st st'" "lock_inv st"
  shows "abs_107 st' = abs_107 st \<or> atomic_call f (abs_107 st) (abs_107 st')"
  using assms
proof (induction rule: step_107.induct)
  case (core i cs m m' c')
  show ?case
  proof (cases "\<exists>took x. cs ! i = Updating took x")
    case True
    then obtain took x where c: "cs ! i = Updating took x" by blast
    then have "x = data m"
      using core.prems core.hyps(1) by (force simp: lock_inv_def list_all_length)
    then have "m' = m\<lparr>data := f (data m)\<rparr>" "written c'" "\<not> written (cs ! i)"
      using core.hyps(2) c by auto
    then show ?thesis
      using atomic_call.call [of i "map written cs" f "data m"] core.hyps(1)
      by (simp add: abs_107_def map_update)
  next
    case False
    then have "data m' = data m" "written c' = written (cs ! i)"
      using core.hyps(2) by (cases "cs ! i"; auto split: if_splits)+
    moreover from this have "map written (cs[i := c']) = map written cs"
      using list_update_id [of "map written cs" i] core.hyps(1) by (simp add: map_update)
    ultimately show ?thesis by (simp add: abs_107_def)
  qed
qed

interpretation linear: forward_simulation "step_107 0 f" "atomic_call f" lock_inv abs_107
  by unfold_locales (erule lock_inv_step, assumption, rule abs_step)

text \<open>The contents after the calls that have been made.\<close>

definition calls_made :: "('a \<Rightarrow> 'a) \<Rightarrow> 'a \<Rightarrow> 'a \<times> bool list \<Rightarrow> bool" where
  "calls_made f d st \<longleftrightarrow> (case st of (x, done) \<Rightarrow> x = (f ^^ length (filter id done)) d)"

interpretation calls: step_invariant "atomic_call f" "calls_made f d"
proof
  show "calls_made f d t" if "atomic_call f s t" "calls_made f d s" for s t
    using that
  proof (induction rule: atomic_call.induct)
    case (call i "done" x)
    then show ?case
      using length_filter_update [OF call.hyps(1), of id True] by (simp add: calls_made_def)
  qed
qed

lemma linear_run:
  assumes "(step_107 0 f)\<^sup>*\<^sup>* (m, replicate n Entering) (m', cs)" "\<not> locked m"
  shows "(atomic_call f)\<^sup>*\<^sup>* (data m, replicate n False) (data m', map written cs)"
    and "data m' = (f ^^ length (filter written cs)) (data m)"
proof -
  show run: "(atomic_call f)\<^sup>*\<^sup>* (data m, replicate n False) (data m', map written cs)"
    using linear.run_simulated [OF assms(1) lock_inv_start [OF assms(2)]] by (simp add: abs_107_def)
  have "calls_made f (data m) (data m', map written cs)"
    by (rule calls.reachable [OF run]) (simp add: calls_made_def)
  then show "data m' = (f ^^ length (filter written cs)) (data m)"
    by (simp add: calls_made_def filter_map comp_def)
qed

text \<open>From every reachable state all cores can finish: some core can get closer to its end.\<close>

fun to_do :: "'a core_107 \<Rightarrow> nat" where
  "to_do Entering = 5"
| "to_do Spinning = 4"
| "to_do (Inside took) = 3"
| "to_do (Updating took x) = 2"
| "to_do (Leaving took) = 1"
| "to_do Left = 0"

definition work_107 :: "'a cores \<Rightarrow> nat" where
  "work_107 st = sum_list (map to_do (snd st))"

lemma core_towards:
  assumes "lock_inv (m, cs)" "i < length cs" "cs ! i \<noteq> Left" "cs ! i = Spinning \<Longrightarrow> \<not> locked m"
  shows "\<exists>st. step_107 0 f (m, cs) st \<and> lock_inv st \<and> work_107 st < work_107 (m, cs)"
proof -
  obtain m' c' where c: "step_core_107 0 f m (cs ! i) = Some (m', c')" "to_do c' < to_do (cs ! i)"
    using assms(3,4) by (cases "cs ! i") auto
  have step: "step_107 0 f (m, cs) (m', cs[i := c'])" by (rule step_107.core [OF assms(2) c(1)])
  moreover have "work_107 (m', cs[i := c']) < work_107 (m, cs)"
    using sum_list_map_update [OF assms(2), of to_do c'] c(2) by (simp add: work_107_def)
  ultimately show ?thesis using lock_inv_step assms(1) by blast
qed

interpretation finish: reachable_goal "step_107 0 f" lock_inv "\<lambda>st. list_all (\<lambda>c. c = Left) (snd st)" work_107
proof
  fix st :: "'a cores"
  assume inv: "lock_inv st" and "\<not> list_all (\<lambda>c. c = Left) (snd st)"
  obtain m cs where st: "st = (m, cs)" by fastforce
  then obtain i where i: "i < length cs" "cs ! i \<noteq> Left"
    using \<open>\<not> list_all _ _\<close> by (auto simp: list_all_length)
  show "\<exists>t. step_107 0 f st t \<and> lock_inv t \<and> work_107 t < work_107 st"
  proof (cases "\<exists>j < length cs. cs ! j \<noteq> Left \<and> cs ! j \<noteq> Spinning")
    case True
    then show ?thesis using core_towards inv unfolding st by blast
  next
    case False
    then have "filter has_lock cs = []"
      by (metis filter_False has_lock.simps(5,6) in_set_conv_nth)
    then have "\<not> locked m" using inv by (simp add: st lock_inv_def split: if_splits)
    then show ?thesis using core_towards inv i unfolding st by blast
  qed
qed

lemma finish_run:
  assumes "(step_107 0 f)\<^sup>*\<^sup>* (m, replicate n Entering) (m', cs)" "\<not> locked m"
  shows "\<exists>m''. (step_107 0 f)\<^sup>*\<^sup>* (m', cs) (m'', replicate n Left) \<and> data m'' = (f ^^ n) (data m)"
proof -
  have len: "length (snd t) = length (snd s)" if "(step_107 0 f)\<^sup>*\<^sup>* s t" for s t :: "'a cores"
    using that by (induction rule: rtranclp_induct) (auto elim!: step_107.cases)
  have "lock_inv (m', cs)" using spin.reachable [OF assms(1)] lock_inv_start [OF assms(2)] .
  then obtain m'' ds where r: "(step_107 0 f)\<^sup>*\<^sup>* (m', cs) (m'', ds)" "list_all (\<lambda>c. c = Left) ds"
    using finish.goal_reached [of "(m', cs)" f] by auto
  have run: "(step_107 0 f)\<^sup>*\<^sup>* (m, replicate n Entering) (m'', ds)" using assms(1) r(1) by (rule rtranclp_trans)
  have "ds = replicate n Left"
    using r(2) len [OF run] by (intro replicate_eqI) (auto simp: list_all_iff)
  then show ?thesis using r(1) linear_run(2) [OF run assms(2)] by (auto simp: filter_replicate)
qed

text \<open>C7. With the dispatch query at 0 the calls of any number of cores behave as if each were
  atomic: every interleaving is a run of the specification, and the contents are those after
  the calls whose closure has written. No interleaving blocks the cores for good; when all
  have finished the closure has been applied once for each.\<close>

theorem with_locked_atomic:
  assumes "(step_107 0 f)\<^sup>*\<^sup>* (m, replicate n Entering) (m', cs)" "\<not> locked m"
  shows "(atomic_call f)\<^sup>*\<^sup>* (data m, replicate n False) (data m', map written cs) \<and>
    data m' = (f ^^ length (filter written cs)) (data m) \<and>
    (\<exists>m''. (step_107 0 f)\<^sup>*\<^sup>* (m', cs) (m'', replicate n Left) \<and> data m'' = (f ^^ n) (data m))"
  using linear_run [OF assms] finish_run [OF assms] by blast

theorem with_locked_atomic_witness:
  "\<exists>m. (step_107 0 Suc)\<^sup>*\<^sup>* (spin_mutex_new 0, replicate 3 Entering) (m, replicate 3 Left) \<and> data m = 3"
  using with_locked_atomic [of Suc "spin_mutex_new 0" 3, OF rtranclp.rtrancl_refl]
  by (simp add: spin_mutex_new_def eval_nat_numeral)

lemma lost_run:
  assumes "dsp \<noteq> 0"
  shows "(step_107 dsp f)\<^sup>*\<^sup>* (m, [Entering, Entering]) (m\<lparr>data := f (data m)\<rparr>, [Left, Left])"
proof (rule move_at_run [where act = "step_core_107 dsp f"], rule step_107.core)
  show "schedule (move_at (step_core_107 dsp f)) [0, 1, 0, 1, 0, 1, 0, 1] (m, [Entering, Entering]) =
      Some (m\<lparr>data := f (data m)\<rparr>, [Left, Left])"
    using assms by (simp add: move_at_def)
qed

text \<open>C10. Two cores whose closure changes what it has written once more can both finish with
  only one of the two updates in the contents exactly when dispatching is disabled.\<close>

theorem lost_update:
  assumes "\<not> locked m" "f (f (data m)) \<noteq> f (data m)"
  shows "(\<exists>m'. (step_107 dsp f)\<^sup>*\<^sup>* (m, [Entering, Entering]) (m', [Left, Left]) \<and> data m' = f (data m)) =
    (dsp \<noteq> 0)"
proof
  assume "\<exists>m'. (step_107 dsp f)\<^sup>*\<^sup>* (m, [Entering, Entering]) (m', [Left, Left]) \<and> data m' = f (data m)"
  then obtain m' where r: "(step_107 dsp f)\<^sup>*\<^sup>* (m, replicate 2 Entering) (m', [Left, Left])"
      "data m' = f (data m)" by (auto simp: numeral_2_eq_2)
  show "dsp \<noteq> 0"
  proof
    assume "dsp = 0"
    then have "data m' = f (f (data m))"
      using linear_run(2) [of f m 2 m' "[Left, Left]"] r(1) assms(1) by simp
    then show False using r(2) assms(2) by simp
  qed
next
  assume "dsp \<noteq> 0"
  then show "\<exists>m'. (step_107 dsp f)\<^sup>*\<^sup>* (m, [Entering, Entering]) (m', [Left, Left]) \<and> data m' = f (data m)"
    using lost_run by fastforce
qed

theorem lost_update_witness:
  "\<exists>m. (step_107 (sns_dsp True) Suc)\<^sup>*\<^sup>* (spin_mutex_new 0, [Entering, Entering]) (m, [Left, Left]) \<and> data m = 1"
  using lost_update [of "spin_mutex_new (0 :: nat)" Suc "sns_dsp True"]
  by (simp add: spin_mutex_new_def sns_dsp_def)

section \<open>A call with no other core\<close>

text \<open>
  \<open>with_locked_buggy\<close> is what the steps of a single core come to; it has no value when they
  spin for ever.
\<close>

definition entered :: "i32 \<Rightarrow> 'a spin_mutex \<Rightarrow> 'a spin_mutex" where
  "entered dsp m = (if dsp = 0 then m\<lparr>locked := True\<rparr> else m)"

definition released :: "i32 \<Rightarrow> 'a spin_mutex \<Rightarrow> 'a spin_mutex" where
  "released dsp m = (if dsp = 0 then m\<lparr>locked := False\<rparr> else m)"

fun single_inv :: "i32 \<Rightarrow> ('a \<Rightarrow> 'a) \<Rightarrow> 'a spin_mutex \<Rightarrow> 'a spin_mutex \<Rightarrow> 'a core_107 \<Rightarrow> bool" where
  "single_inv dsp f m0 m Entering \<longleftrightarrow> m = m0"
| "single_inv dsp f m0 m Spinning \<longleftrightarrow> m = m0 \<and> dsp = 0"
| "single_inv dsp f m0 m (Inside took) \<longleftrightarrow> m = entered dsp m0 \<and> took = (dsp = 0) \<and> \<not> (took \<and> locked m0)"
| "single_inv dsp f m0 m (Updating took x) \<longleftrightarrow>
     m = entered dsp m0 \<and> x = data m0 \<and> took = (dsp = 0) \<and> \<not> (took \<and> locked m0)"
| "single_inv dsp f m0 m (Leaving took) \<longleftrightarrow>
     m = (entered dsp m0)\<lparr>data := f (data m0)\<rparr> \<and> took = (dsp = 0) \<and> \<not> (took \<and> locked m0)"
| "single_inv dsp f m0 m Left \<longleftrightarrow>
     m = released dsp ((entered dsp m0)\<lparr>data := f (data m0)\<rparr>) \<and> \<not> (dsp = 0 \<and> locked m0)"

lemma set_locked: "locked m \<Longrightarrow> m\<lparr>locked := True\<rparr> = m"
  by (cases m) simp

lemma single_step:
  "step_core_107 dsp f m c = Some (m', c') \<Longrightarrow> single_inv dsp f m0 m c \<Longrightarrow> single_inv dsp f m0 m' c'"
  by (cases c) (auto simp: entered_def released_def set_locked split: if_splits)

interpretation single: step_invariant "step_107 dsp f" "\<lambda>st. \<exists>c. snd st = [c] \<and> single_inv dsp f m0 (fst st) c"
proof
  show "\<exists>c. snd t = [c] \<and> single_inv dsp f m0 (fst t) c"
    if "step_107 dsp f s t" "\<exists>c. snd s = [c] \<and> single_inv dsp f m0 (fst s) c" for s t
    using that by (induction rule: step_107.induct) (auto dest: single_step)
qed

lemma single_core:
  "(step_107 dsp (\<lambda>x. snd (g x)))\<^sup>*\<^sup>* (m, [Entering]) (m', [Left]) \<longleftrightarrow>
     (\<exists>r. with_locked_buggy dsp g m = Some (m', r, dsp = 0))"
proof -
  let ?f = "\<lambda>x. snd (g x)"
  let ?e = "entered dsp m"
  let ?u = "?e\<lparr>data := ?f (data m)\<rparr>"
  have outcome: "with_locked_buggy dsp g m =
      (if dsp = 0 \<and> locked m then None else Some (released dsp ?u, fst (g (data m)), dsp = 0))"
    by (cases "g (data m)") (simp add: with_locked_buggy_def entered_def released_def Let_def)
  show ?thesis
  proof
    assume "(step_107 dsp ?f)\<^sup>*\<^sup>* (m, [Entering]) (m', [Left])"
    from single.reachable [OF this, of m]
    have "m' = released dsp ?u \<and> \<not> (dsp = 0 \<and> locked m)" by simp
    then show "\<exists>r. with_locked_buggy dsp g m = Some (m', r, dsp = 0)" by (auto simp: outcome)
  next
    assume "\<exists>r. with_locked_buggy dsp g m = Some (m', r, dsp = 0)"
    then have m': "m' = released dsp ?u" and free: "dsp = 0 \<Longrightarrow> \<not> locked m"
      unfolding outcome by (auto split: if_splits)
    note core = step_107.core [of 0 _ dsp ?f]
    have "(step_107 dsp ?f)\<^sup>*\<^sup>* (m, [Entering]) (?e, [Inside (dsp = 0)])"
    proof (cases "dsp = 0")
      case True
      then have "step_107 dsp ?f (m, [Entering]) (m, [Spinning])"
        "step_107 dsp ?f (m, [Spinning]) (?e, [Inside (dsp = 0)])"
        using core [of "[Entering]" m] core [of "[Spinning]" m] free by (simp_all add: entered_def)
      then show ?thesis by (meson converse_rtranclp_into_rtranclp r_into_rtranclp)
    next
      case False
      then show ?thesis using core [of "[Entering]" m] by (intro r_into_rtranclp) (simp add: entered_def)
    qed
    moreover have "step_107 dsp ?f (?e, [Inside (dsp = 0)]) (?e, [Updating (dsp = 0) (data m)])"
      "step_107 dsp ?f (?e, [Updating (dsp = 0) (data m)]) (?u, [Leaving (dsp = 0)])"
      "step_107 dsp ?f (?u, [Leaving (dsp = 0)]) (m', [Left])"
      using core [of "[Inside (dsp = 0)]" ?e] core [of "[Updating (dsp = 0) (data m)]" ?e]
        core [of "[Leaving (dsp = 0)]" ?u] m'
      by (cases "dsp = 0"; simp add: entered_def released_def)+
    ultimately show "(step_107 dsp ?f)\<^sup>*\<^sup>* (m, [Entering]) (m', [Left])"
      by (meson rtranclp.rtrancl_into_rtrancl)
  qed
qed

end
