(* ===== verification/Views.thy ===== *)
theory Views
  imports Transitions
begin

text \<open>
  Views: what a thread knows of the plain accesses of the others under the memory orderings
  of the language. The program's accesses to plain memory are a history; a view is the set of
  positions in it that are ordered before whatever its owner does next. An access that is
  not ordered after every conflicting one before it is a data race.
\<close>

type_synonym view = "nat set"

text \<open>An access is its location and whether it writes.\<close>

record 'l history =
  accesses :: "('l \<times> bool) list"
  raced :: bool

definition no_history :: "'l history" where
  "no_history = \<lparr>accesses = [], raced = False\<rparr>"

definition conflicts :: "'l \<Rightarrow> bool \<Rightarrow> ('l \<times> bool) list \<Rightarrow> view" where
  "conflicts loc write_access as =
     set (filter (\<lambda>i. fst (as ! i) = loc \<and> (write_access \<or> snd (as ! i))) [0..<length as])"

definition access :: "'l \<Rightarrow> bool \<Rightarrow> view \<Rightarrow> 'l history \<Rightarrow> 'l history \<times> view" where
  "access loc write_access v h =
     (\<lparr>accesses = accesses h @ [(loc, write_access)],
       raced = raced h \<or> \<not> conflicts loc write_access (accesses h) \<subseteq> v\<rparr>,
      insert (length (accesses h)) v)"

text \<open>A releasing store leaves the view of its thread with the value; an acquiring load takes it.\<close>

definition store_view :: "mem_order \<Rightarrow> view \<Rightarrow> view" where
  "store_view ord v = (if ord = Release then v else {})"

definition load_view :: "mem_order \<Rightarrow> view \<Rightarrow> view \<Rightarrow> view" where
  "load_view ord stored_view v = (if ord = Acquire then v \<union> stored_view else v)"

lemma view_orders [simp]:
  "store_view Release v = v" "load_view Acquire u v = v \<union> u"
  by (simp_all add: store_view_def load_view_def)

text \<open>A thread that knows the whole history, or all its writes, does not race.\<close>

definition knows_all :: "'l history \<Rightarrow> view \<Rightarrow> bool" where
  "knows_all h v \<longleftrightarrow> {..<length (accesses h)} \<subseteq> v"

definition knows_writes :: "'l history \<Rightarrow> view \<Rightarrow> bool" where
  "knows_writes h v \<longleftrightarrow> (\<forall>i < length (accesses h). snd (accesses h ! i) \<longrightarrow> i \<in> v)"

lemma knows_all_no_history [simp]: "knows_all no_history v"
  by (simp add: knows_all_def no_history_def)

lemma raced_no_history [simp]: "\<not> raced no_history"
  by (simp add: no_history_def)

lemma knows_all_un [intro]: "knows_all h u \<Longrightarrow> knows_all h (v \<union> u)"
  by (auto simp: knows_all_def)

lemma knows_all_writes: "knows_all h v \<Longrightarrow> knows_writes h v"
  by (auto simp: knows_all_def knows_writes_def)

lemma knows_writes_taken: "knows_all h u \<Longrightarrow> knows_writes h (v \<union> u)"
  by (rule knows_all_writes, rule knows_all_un)

lemma access_known:
  assumes "knows_all h v" "access l w v h = (h', v')"
  shows "knows_all h' v'" "raced h' = raced h"
proof -
  have "conflicts l w (accesses h) \<subseteq> v" using assms(1) by (auto simp: conflicts_def knows_all_def)
  then show "raced h' = raced h" using assms(2) by (auto simp: access_def)
  show "knows_all h' v'" using assms by (auto simp: access_def knows_all_def less_Suc_eq)
qed

lemma read_known:
  assumes "knows_writes h v" "access l False v h = (h', v')"
  shows "knows_writes h' v'" "raced h' = raced h"
proof -
  have "conflicts l False (accesses h) \<subseteq> v" using assms(1) by (auto simp: conflicts_def knows_writes_def)
  then show "raced h' = raced h" using assms(2) by (auto simp: access_def)
  show "knows_writes h' v'"
    using assms by (auto simp: access_def knows_writes_def less_Suc_eq nth_append)
qed

end
