(* ===== verification/Spin_Orderings.thy ===== *)
theory Spin_Orderings
  imports Spin_Mutex Views
begin

text \<open>
  The spin mutex (107) with the memory orderings its atomic operations name. The view of a
  core travels through the lock word. A data race on the contents is undefined behaviour;
  without one the program behaves as \<open>Spin_Mutex\<close> has it.
\<close>

section \<open>Cores with views\<close>

text \<open>
  \<open>lock_view\<close> is what the value of the lock word carries. A swap leaves that as it is, since it
  continues the release sequence; a relaxed store ends it. The contents are one location.
\<close>

record 'a weak_mutex =
  lock_word :: bool
  lock_view :: view
  cell :: 'a
  history :: "unit history"

type_synonym 'a weak_core = "'a core_107 \<times> view"

fun step_weak_core ::
  "mem_order \<Rightarrow> mem_order \<Rightarrow> i32 \<Rightarrow> ('a \<Rightarrow> 'a) \<Rightarrow> 'a weak_mutex \<Rightarrow> 'a weak_core \<Rightarrow>
   ('a weak_mutex \<times> 'a weak_core) option" where
  "step_weak_core swap_ord store_ord dsp f m (Entering, v) =
     Some (m, if dsp = 0 then Spinning else Inside False, v)"
| "step_weak_core swap_ord store_ord dsp f m (Spinning, v) =
     Some (m\<lparr>lock_word := True\<rparr>, if lock_word m then Spinning else Inside True,
       load_view swap_ord (lock_view m) v)"
| "step_weak_core swap_ord store_ord dsp f m (Inside took, v) =
     (let (h, v) = access () False v (history m)
      in Some (m\<lparr>history := h\<rparr>, Updating took (cell m), v))"
| "step_weak_core swap_ord store_ord dsp f m (Updating took x, v) =
     (let (h, v) = access () True v (history m)
      in Some (m\<lparr>cell := f x, history := h\<rparr>, Leaving took, v))"
| "step_weak_core swap_ord store_ord dsp f m (Leaving took, v) =
     Some (if took then m\<lparr>lock_word := False, lock_view := store_view store_ord v\<rparr> else m,
       Left, v)"
| "step_weak_core swap_ord store_ord dsp f m (Left, v) = None"

type_synonym 'a weak_cores = "'a weak_mutex \<times> 'a weak_core list"

inductive step_weak :: "mem_order \<Rightarrow> mem_order \<Rightarrow> i32 \<Rightarrow> ('a \<Rightarrow> 'a) \<Rightarrow> 'a weak_cores \<Rightarrow> 'a weak_cores \<Rightarrow> bool"
  for swap_ord store_ord :: mem_order and dsp :: i32 and f :: "'a \<Rightarrow> 'a" where
  core: "i < length cs \<Longrightarrow> step_weak_core swap_ord store_ord dsp f m (cs ! i) = Some (m', c') \<Longrightarrow>
    step_weak swap_ord store_ord dsp f (m, cs) (m', cs[i := c'])"

text \<open>
  The mutex before any call: the value it was built with is known to every core, and so is
  not among the accesses.
\<close>

definition weak_new :: "'a \<Rightarrow> 'a weak_mutex" where
  "weak_new x = \<lparr>lock_word = False, lock_view = {}, cell = x, history = no_history\<rparr>"

definition weak_start :: "nat \<Rightarrow> 'a \<Rightarrow> 'a weak_cores" where
  "weak_start n x = (weak_new x, replicate n (Entering, {}))"

section \<open>Without the views\<close>

text \<open>The views decide only whether there is a race: forgetting them gives the plain steps.\<close>

definition plain_mutex :: "'a weak_mutex \<Rightarrow> 'a spin_mutex" where
  "plain_mutex m = \<lparr>locked = lock_word m, data = cell m\<rparr>"

definition forget_views :: "'a weak_cores \<Rightarrow> 'a cores" where
  "forget_views st = (case st of (m, cs) \<Rightarrow> (plain_mutex m, map fst cs))"

lemma plain_core:
  "step_weak_core a r dsp f m (c, v) = Some (m', c', v') \<Longrightarrow>
   step_core_107 dsp f (plain_mutex m) c = Some (plain_mutex m', c')"
  by (cases c) (auto simp: plain_mutex_def split: if_splits prod.splits)

lemma forget_step:
  assumes "step_weak a r dsp f st st'"
  shows "step_107 dsp f (forget_views st) (forget_views st')"
  using assms
proof (induction rule: step_weak.induct)
  case (core i cs m m' c')
  then have "step_core_107 dsp f (plain_mutex m) (map fst cs ! i) = Some (plain_mutex m', fst c')"
    using plain_core [of a r dsp f m "fst (cs ! i)" "snd (cs ! i)" m' "fst c'" "snd c'"] by simp
  then show ?case
    using step_107.core [of i "map fst cs" dsp f "plain_mutex m"] core.hyps(1)
    by (simp add: forget_views_def map_update)
qed

interpretation forget: forward_simulation "step_weak a r dsp f" "step_107 dsp f" "\<lambda>_. True" forget_views
  by unfold_locales (auto intro: forget_step)

lemma forget_start: "forget_views (weak_start n x) = (spin_mutex_new x, replicate n Entering)"
  by (simp add: forget_views_def weak_start_def weak_new_def plain_mutex_def spin_mutex_new_def)

section \<open>Races\<close>

text \<open>
  With an acquiring swap and a releasing store, and dispatching enabled, the core that has
  the lock knows every access so far, and so does the lock word when it is free.
\<close>

definition view_inv :: "'a weak_cores \<Rightarrow> bool" where
  "view_inv st \<longleftrightarrow> lock_inv (forget_views st) \<and> (case st of (m, cs) \<Rightarrow>
     \<not> raced (history m) \<and> (if lock_word m then True else knows_all (history m) (lock_view m)) \<and>
     list_all (\<lambda>(c, v). if has_lock c then knows_all (history m) v else True) cs)"

lemma weak_core_kept:
  assumes "step_weak_core Acquire Release 0 f m (c, v) = Some (m', d, w)"
    and "\<not> unlocked c" "has_lock c \<Longrightarrow> lock_word m \<and> knows_all (history m) v"
    and "\<not> lock_word m \<Longrightarrow> knows_all (history m) (lock_view m)" "\<not> raced (history m)"
  shows "\<not> raced (history m') \<and> (if lock_word m' then True else knows_all (history m') (lock_view m')) \<and>
    (if has_lock d then knows_all (history m') w else True) \<and> (history m' = history m \<or> has_lock c)"
proof (cases c)
  case (Inside took)
  obtain h u where h: "access () False v (history m) = (h, u)" by fastforce
  then show ?thesis using assms Inside access_known [OF _ h] by auto
next
  case (Updating took x)
  obtain h u where h: "access () True v (history m) = (h, u)" by fastforce
  then show ?thesis using assms Updating access_known [OF _ h] by auto
next
  case Spinning
  then show ?thesis using assms by (auto split: if_splits)
qed (use assms in auto)

lemma view_inv_step:
  assumes "step_weak Acquire Release 0 f st st'" "view_inv st"
  shows "view_inv st'"
  using assms
proof (induction rule: step_weak.induct)
  case (core i cs m m' c')
  obtain c v where cv: "cs ! i = (c, v)" by fastforce
  obtain d w where dw: "c' = (d, w)" by fastforce
  have lock: "lock_inv (forget_views (m', cs[i := c']))"
    using lock_inv_step [OF forget_step [OF step_weak.core [OF core.hyps]]] core.prems
    by (simp add: view_inv_def)
  have all: "list_all (\<lambda>(c, v). if has_lock c then knows_all (history m) v else True) cs"
    and old: "lock_inv (forget_views (m, cs))"
    and free: "\<not> raced (history m)" "if lock_word m then True else knows_all (history m) (lock_view m)"
    using core.prems by (simp_all add: view_inv_def)
  have owners: "length (filter (has_lock \<circ> fst) cs) = (if lock_word m then 1 else 0)"
    using old by (simp add: lock_inv_def forget_views_def plain_mutex_def filter_map)
  have "cs ! i \<in> set cs" using core.hyps(1) by simp
  then have owner: "has_lock c \<Longrightarrow> lock_word m \<and> knows_all (history m) v"
    using all owners cv by (auto simp: list_all_iff filter_empty_conv split: if_splits)
  have "\<not> unlocked c"
    using old core.hyps(1) cv by (force simp: lock_inv_def forget_views_def list_all_length)
  from weak_core_kept [OF core.hyps(2) [unfolded cv dw] this owner _ free(1)] free(2)
  have kept: "\<not> raced (history m')" "if lock_word m' then True else knows_all (history m') (lock_view m')"
    "if has_lock d then knows_all (history m') w else True" "history m' = history m \<or> has_lock c" by auto
  have "if has_lock b then knows_all (history m') u else True" if mem: "(b, u) \<in> set (cs[i := c'])" for b u
  proof (cases "history m' = history m")
    case True
    moreover have "(b, u) = (d, w) \<or> (b, u) \<in> set cs"
      using mem set_update_subset_insert [of cs i c'] dw by auto
    ultimately show ?thesis using all kept(3) by (auto simp: list_all_iff)
  next
    case False
    then have "length (filter (has_lock \<circ> fst) cs) = 1" "(has_lock \<circ> fst) (cs ! i)"
      using kept(4) owner owners cv by auto
    from single_holder [OF this(1) core.hyps(1) this(2) mem] show ?thesis
      using kept(3) dw by auto
  qed
  then show ?case using lock kept(1,2) by (auto simp: view_inv_def list_all_iff)
qed

text \<open>A run with a race: one core makes its whole call, then another reads the contents.\<close>

lemma racing_schedule:
  assumes "\<not> (dsp = 0 \<and> a = Acquire \<and> r = Release)"
  shows "case schedule (move_at (step_weak_core a r dsp f)) (if dsp = 0 then [0, 0, 0, 0, 0, 1, 1, 1] else [0, 0, 0, 0, 1, 1])
      (weak_start (Suc (Suc n)) x) of None \<Rightarrow> False | Some (m, cs) \<Rightarrow> raced (history m)"
proof (cases "dsp = 0")
  case True
  then show ?thesis using assms
    by (cases "a = Acquire"; cases "r = Release")
      (simp_all add: move_at_def weak_start_def weak_new_def no_history_def access_def conflicts_def store_view_def load_view_def)
next
  case False
  then show ?thesis
    by (simp add: move_at_def weak_start_def weak_new_def no_history_def access_def conflicts_def store_view_def load_view_def)
qed

lemma racing_run:
  assumes "\<not> (dsp = 0 \<and> a = Acquire \<and> r = Release)"
  shows "\<exists>m cs. (step_weak a r dsp f)\<^sup>*\<^sup>* (weak_start (Suc (Suc n)) x) (m, cs) \<and> raced (history m)"
proof -
  obtain m cs where "raced (history m)" and run: "schedule (move_at (step_weak_core a r dsp f))
      (if dsp = 0 then [0, 0, 0, 0, 0, 1, 1, 1] else [0, 0, 0, 0, 1, 1]) (weak_start (Suc (Suc n)) x) = Some (m, cs)"
    using racing_schedule [OF assms, of f n x] by (auto split: option.splits)
  have "(step_weak a r dsp f)\<^sup>*\<^sup>* (weak_start (Suc (Suc n)) x) (m, cs)"
    by (rule move_at_run [where act = "step_weak_core a r dsp f", OF _ run]) (rule step_weak.core)
  with \<open>raced (history m)\<close> show ?thesis by blast
qed

interpretation views: step_invariant "step_weak Acquire Release 0 f" view_inv
  by unfold_locales (rule view_inv_step)

lemma view_inv_start: "view_inv (weak_start n x)"
  by (simp add: view_inv_def weak_start_def forget_views_def plain_mutex_def weak_new_def
      lock_inv_def list_all_iff)

text \<open>C8. Some interleaving of two or more cores has a data race on the contents exactly when
  dispatching is disabled or an ordering is weaker than the code has it: with dispatching
  enabled, the acquiring swap and the releasing store make every access ordered after all
  conflicting ones, and neither can be relaxed. The views decide about races only: without
  them a run is one of the interleaved program on a single memory, which is what the language
  promises of a program without races.\<close>

theorem data_race_iff:
  assumes "2 \<le> n"
  shows "(\<exists>m cs. (step_weak swap_ord store_ord dsp f)\<^sup>*\<^sup>* (weak_start n x) (m, cs) \<and> raced (history m)) =
      (\<not> (dsp = 0 \<and> swap_ord = Acquire \<and> store_ord = Release)) \<and>
    (\<forall>st. (step_weak swap_ord store_ord dsp f)\<^sup>*\<^sup>* (weak_start n x) st \<longrightarrow>
      (step_107 dsp f)\<^sup>*\<^sup>* (spin_mutex_new x, replicate n Entering) (forget_views st))"
proof (intro conjI allI impI)
  obtain k where n: "n = Suc (Suc k)" using assms by (auto simp: numeral_2_eq_2 le_iff_add)
  show "(\<exists>m cs. (step_weak swap_ord store_ord dsp f)\<^sup>*\<^sup>* (weak_start n x) (m, cs) \<and> raced (history m)) =
      (\<not> (dsp = 0 \<and> swap_ord = Acquire \<and> store_ord = Release))"
  proof (cases "dsp = 0 \<and> swap_ord = Acquire \<and> store_ord = Release")
    case True
    then show ?thesis
      using views.reachable [OF _ view_inv_start, of f n x] by (fastforce simp: view_inv_def)
  next
    case False
    then show ?thesis using racing_run [OF False, of f k x] unfolding n by simp
  qed
  show "(step_107 dsp f)\<^sup>*\<^sup>* (spin_mutex_new x, replicate n Entering) (forget_views st)"
    if "(step_weak swap_ord store_ord dsp f)\<^sup>*\<^sup>* (weak_start n x) st" for st
    using forget.run_simulated [OF that] by (simp add: forget_start)
qed

theorem data_race_iff_witness:
  "(\<exists>m cs. (step_weak Relaxed Release 0 Suc)\<^sup>*\<^sup>* (weak_start 2 0) (m, cs) \<and> raced (history m)) \<and>
   \<not> (\<exists>m cs. (step_weak Acquire Release 0 Suc)\<^sup>*\<^sup>* (weak_start 2 0) (m, cs) \<and> raced (history m))"
  using data_race_iff [of 2 Relaxed Release 0 Suc 0] data_race_iff [of 2 Acquire Release 0 Suc 0]
  by simp

end
