(* ===== verification/Exposure.thy ===== *)
theory Exposure
  imports Transitions
begin

text \<open>
  A program that creates an object first and restricts it afterwards: the socket clone whose
  inheritance flag is cleared late (066), as a two-party step relation. The theorem says what
  the other party can observe in the window.
\<close>

section \<open>The inheritable socket (066)\<close>

definition WSA_FLAG_OVERLAPPED :: u32 where
  "WSA_FLAG_OVERLAPPED = 0x01"

definition WSA_FLAG_NO_HANDLE_INHERIT :: u32 where
  "WSA_FLAG_NO_HANDLE_INHERIT = 0x80"

definition wsasocketw_mock :: "u32 \<Rightarrow> u64" where
  "wsasocketw_mock flags = 0x1000 OR ucast flags"

datatype clone_pc = Create | Publish u64 | AwaitChild u64 | ClearInherit u64 | CloneDone

datatype main_pc = AwaitSocket | ReadSocket | SpawnChild bool | Join bool | MainDone bool

record state_066 =
  observed :: u64
  child_spawned :: bool
  cleared :: bool
  clone :: clone_pc
  spawner :: main_pc

definition inheritable_view :: "u64 \<Rightarrow> bool" where
  "inheritable_view socket_view \<longleftrightarrow> (ucast socket_view :: u32) AND WSA_FLAG_NO_HANDLE_INHERIT = 0"

text \<open>
  The steps of \<open>fallback_clone\<close> and of \<open>main\<close>; both spin loops leave the state as it is.
  \<open>cleared\<close> records that \<open>set_handle_information_clear_inherit\<close> has been called.
\<close>

fun fallback_clone :: "state_066 \<Rightarrow> state_066 option" where
  "fallback_clone s =
     (case clone s of
        Create \<Rightarrow> Some (s\<lparr>clone := Publish (wsasocketw_mock WSA_FLAG_OVERLAPPED)\<rparr>)
      | Publish socket \<Rightarrow> Some (s\<lparr>observed := socket, clone := AwaitChild socket\<rparr>)
      | AwaitChild socket \<Rightarrow> Some (if child_spawned s then s\<lparr>clone := ClearInherit socket\<rparr> else s)
      | ClearInherit socket \<Rightarrow> Some (s\<lparr>cleared := True, clone := CloneDone\<rparr>)
      | CloneDone \<Rightarrow> None)"

fun main_066 :: "state_066 \<Rightarrow> state_066 option" where
  "main_066 s =
     (case spawner s of
        AwaitSocket \<Rightarrow> Some (if observed s = 0 then s else s\<lparr>spawner := ReadSocket\<rparr>)
      | ReadSocket \<Rightarrow> Some (s\<lparr>spawner := SpawnChild (inheritable_view (observed s))\<rparr>)
      | SpawnChild v \<Rightarrow> Some (s\<lparr>child_spawned := True, spawner := Join v\<rparr>)
      | Join v \<Rightarrow> (if clone s = CloneDone then Some (s\<lparr>spawner := MainDone v\<rparr>) else None)
      | MainDone v \<Rightarrow> None)"

inductive step_066 :: "state_066 \<Rightarrow> state_066 \<Rightarrow> bool" where
  clone_step: "fallback_clone s = Some s' \<Longrightarrow> step_066 s s'"
| main_step: "main_066 s = Some s' \<Longrightarrow> step_066 s s'"

definition init_066 :: state_066 where
  "init_066 = \<lparr>observed = 0, child_spawned = False, cleared = False, clone = Create, spawner = AwaitSocket\<rparr>"

definition inv_066 :: "state_066 \<Rightarrow> bool" where
  "inv_066 s \<longleftrightarrow>
     (observed s = 0 \<or> observed s = 0x1001) \<and>
     (case clone s of
        Create \<Rightarrow> observed s = 0 | Publish h \<Rightarrow> h = 0x1001 \<and> observed s = 0
      | AwaitChild h \<Rightarrow> observed s = 0x1001 | ClearInherit h \<Rightarrow> child_spawned s | CloneDone \<Rightarrow> child_spawned s) \<and>
     (case spawner s of
        AwaitSocket \<Rightarrow> \<not> child_spawned s | ReadSocket \<Rightarrow> \<not> child_spawned s \<and> observed s = 0x1001
      | SpawnChild v \<Rightarrow> \<not> child_spawned s \<and> observed s = 0x1001 \<and> v | Join v \<Rightarrow> v | MainDone v \<Rightarrow> v) \<and>
     (if cleared s then child_spawned s else True)"

lemma socket_flags: "wsasocketw_mock WSA_FLAG_OVERLAPPED = 0x1001" "inheritable_view 0x1001"
  by (simp_all add: wsasocketw_mock_def WSA_FLAG_OVERLAPPED_def inheritable_view_def WSA_FLAG_NO_HANDLE_INHERIT_def)

lemma inv_step_066: "step_066 s s' \<Longrightarrow> inv_066 s \<Longrightarrow> inv_066 s'"
proof (induction rule: step_066.induct)
  case (clone_step s s')
  then show ?case
    by (cases "clone s"; cases "spawner s") (auto simp: inv_066_def socket_flags split: if_splits)
next
  case (main_step s s')
  then show ?case
    by (cases "spawner s"; cases "clone s") (auto simp: inv_066_def socket_flags split: if_splits)
qed

interpretation clone: step_invariant step_066 inv_066
  by unfold_locales (rule inv_step_066)

lemma inv_reachable_066: "step_066\<^sup>*\<^sup>* init_066 s \<Longrightarrow> inv_066 s"
  by (erule clone.reachable) (simp add: inv_066_def init_066_def)

text \<open>In every interleaving the child is spawned while the socket's flag has not been
  cleared, and the handle that \<open>main\<close> has read by then is inheritable, so the assertion of
  the program never fails.\<close>

theorem spawn_sees_inheritable:
  assumes "step_066\<^sup>*\<^sup>* init_066 s"
  shows "case spawner s of
      SpawnChild v \<Rightarrow> v \<and> \<not> cleared s \<and> inheritable_view (observed s)
    | Join v \<Rightarrow> v | MainDone v \<Rightarrow> v | _ \<Rightarrow> \<not> cleared s"
  using inv_reachable_066 [OF assms]
  by (cases "spawner s"; cases "clone s") (auto simp: inv_066_def socket_flags split: if_splits)

theorem spawn_sees_inheritable_witness:
  "\<exists>s. step_066\<^sup>*\<^sup>* init_066 s \<and> spawner s = SpawnChild True \<and> \<not> cleared s"
proof -
  define s1 where "s1 = init_066\<lparr>clone := Publish 0x1001\<rparr>"
  define s2 where "s2 = s1\<lparr>observed := 0x1001, clone := AwaitChild 0x1001\<rparr>"
  define s3 where "s3 = s2\<lparr>spawner := ReadSocket\<rparr>"
  define s4 where "s4 = s3\<lparr>spawner := SpawnChild True\<rparr>"
  have "step_066 init_066 s1" "step_066 s1 s2"
    by (rule clone_step, simp add: init_066_def s1_def s2_def socket_flags)+
  moreover have "step_066 s2 s3" "step_066 s3 s4"
    by (rule main_step, simp add: init_066_def s1_def s2_def s3_def s4_def socket_flags)+
  ultimately have r: "step_066\<^sup>*\<^sup>* init_066 s4"
    by (meson rtranclp.rtrancl_into_rtrancl rtranclp.rtrancl_refl)
  from spawn_sees_inheritable [OF this] show ?thesis
    using r by (auto simp: s4_def)
qed

end
