(* ===== verification/Unix_Listener.thy ===== *)
theory Unix_Listener
  imports Transitions
begin

text \<open>
  The Unix listener whose permissions are set after \<open>bind\<close> (pushpin 001), from the removal
  of an old socket file to the report. The server runs on the main thread, the attacker on
  one of its own; a step is one library call of one of them. The theorem says for which
  umask the server ends up serving the attacker.
\<close>

section \<open>The socket file\<close>

text \<open>
  \<open>sock_mode\<close> is \<open>None\<close> when no file is there; \<open>backlog\<close> counts the connections that wait for
  \<open>accept\<close>. Both parties run as the same unprivileged user, so \<open>connect\<close> asks for the
  owner's write permission; the permission bits are the low nine of a word.
\<close>

record socket_file =
  umask :: u32
  sock_mode :: "u32 option"
  backlog :: nat

definition mode_777 :: u32 where
  "mode_777 = 0x1ff"

definition owner_write :: u32 where
  "owner_write = 0x80"

text \<open>\<open>bind\<close> fails on a file that exists.\<close>

definition bind_socket :: "socket_file \<Rightarrow> socket_file run" where
  "bind_socket f =
     (case sock_mode f of
        None \<Rightarrow> Inr (f\<lparr>sock_mode := Some (mode_777 AND NOT (umask f))\<rparr>)
      | Some m \<Rightarrow> Inl UnwrapErr)"

definition stat_mode :: "socket_file \<Rightarrow> u32 run" where
  "stat_mode f = (case sock_mode f of None \<Rightarrow> Inl UnwrapErr | Some m \<Rightarrow> Inr (m AND mode_777))"

definition set_permissions :: "u32 \<Rightarrow> socket_file \<Rightarrow> socket_file run" where
  "set_permissions m f =
     (case sock_mode f of None \<Rightarrow> Inl UnwrapErr | Some _ \<Rightarrow> Inr (f\<lparr>sock_mode := Some m\<rparr>))"

definition may_connect :: "socket_file \<Rightarrow> bool" where
  "may_connect f \<longleftrightarrow> (case sock_mode f of None \<Rightarrow> False | Some m \<Rightarrow> m AND owner_write \<noteq> 0)"

definition connect :: "socket_file \<Rightarrow> (socket_file, unit) result" where
  "connect f = (if may_connect f then Ok (f\<lparr>backlog := backlog f + 1\<rparr>) else Err ())"

section \<open>The two threads\<close>

text \<open>
  The positions of the server between its library calls, with the values it has read: the
  mode after \<open>bind\<close>, the mode after the restriction, what came over the stream, and whether
  the last connection was rejected. The attacker waits for the message of the server, tries
  until a connection succeeds, and sends it over the channel. \<open>stream\<close> is what the server has
  written to the accepted connection, \<open>closed\<close> whether it has dropped it.
\<close>

datatype server_pc =
    RemoveFile
  | SetUmask
  | BindSocket
  | StatBound
  | SendReady u32
  | SetPermissions u32
  | StatRestricted u32
  | Accept u32 u32
  | ReceiveStream u32 u32
  | WriteServed u32 u32
  | DropServer u32 u32
  | ReadStream u32 u32
  | TryConnect u32 u32 "u8 list"
  | JoinAttacker u32 u32 "u8 list" bool
  | Finished u32 u32 "u8 list" bool
  | Crashed panic

datatype attacker_pc = AwaitReady | Connecting | Connected | Sent

record state_001 =
  sock_file :: socket_file
  stream :: "u8 list"
  closed :: bool
  server :: server_pc
  attacker :: attacker_pc
  ready :: bool

definition served :: "u8 list" where
  "served = map of_char ''served'' @ [10]"

text \<open>A panicking call ends the server; \<open>then_at\<close> goes on with the result of one that returns.\<close>

definition then_at :: "state_001 \<Rightarrow> 'a run \<Rightarrow> ('a \<Rightarrow> state_001) \<Rightarrow> state_001" where
  "then_at s r k = (case r of Inl e \<Rightarrow> s\<lparr>server := Crashed e\<rparr> | Inr x \<Rightarrow> k x)"

fun server_step :: "u32 \<Rightarrow> state_001 \<Rightarrow> state_001 option" where
  "server_step um s =
     (case server s of
        RemoveFile \<Rightarrow> Some (s\<lparr>sock_file := (sock_file s)\<lparr>sock_mode := None\<rparr>, server := SetUmask\<rparr>)
      | SetUmask \<Rightarrow> Some (s\<lparr>sock_file := (sock_file s)\<lparr>umask := um\<rparr>, server := BindSocket\<rparr>)
      | BindSocket \<Rightarrow>
          Some (then_at s (bind_socket (sock_file s)) (\<lambda>f. s\<lparr>sock_file := f, server := StatBound\<rparr>))
      | StatBound \<Rightarrow> Some (then_at s (stat_mode (sock_file s)) (\<lambda>m. s\<lparr>server := SendReady m\<rparr>))
      | SendReady bound \<Rightarrow> Some (s\<lparr>ready := True, server := SetPermissions bound\<rparr>)
      | SetPermissions bound \<Rightarrow>
          Some (then_at s (set_permissions 0 (sock_file s)) (\<lambda>f.
            s\<lparr>sock_file := f, server := StatRestricted bound\<rparr>))
      | StatRestricted bound \<Rightarrow>
          Some (then_at s (stat_mode (sock_file s)) (\<lambda>m. s\<lparr>server := Accept bound m\<rparr>))
      | Accept bound restricted \<Rightarrow>
          (if backlog (sock_file s) = 0 then None
           else Some (s\<lparr>sock_file := (sock_file s)\<lparr>backlog := backlog (sock_file s) - 1\<rparr>,
                        server := ReceiveStream bound restricted\<rparr>))
      | ReceiveStream bound restricted \<Rightarrow>
          (if attacker s = Sent then Some (s\<lparr>server := WriteServed bound restricted\<rparr>) else None)
      | WriteServed bound restricted \<Rightarrow>
          Some (s\<lparr>stream := stream s @ served, server := DropServer bound restricted\<rparr>)
      | DropServer bound restricted \<Rightarrow> Some (s\<lparr>closed := True, server := ReadStream bound restricted\<rparr>)
      | ReadStream bound restricted \<Rightarrow>
          (if closed s
           then Some (if utf8_valid (stream s) then s\<lparr>server := TryConnect bound restricted (stream s)\<rparr>
                      else s\<lparr>server := Crashed UnwrapErr\<rparr>)
           else None)
      | TryConnect bound restricted buf \<Rightarrow>
          Some (case connect (sock_file s) of
              Ok f \<Rightarrow> s\<lparr>sock_file := f, server := JoinAttacker bound restricted buf False\<rparr>
            | Err _ \<Rightarrow> s\<lparr>server := JoinAttacker bound restricted buf True\<rparr>)
      | JoinAttacker bound restricted buf rejected \<Rightarrow>
          (if attacker s = Sent then Some (s\<lparr>server := Finished bound restricted buf rejected\<rparr>) else None)
      | Finished bound restricted buf rejected \<Rightarrow> None
      | Crashed e \<Rightarrow> None)"

fun attacker_step :: "state_001 \<Rightarrow> state_001 option" where
  "attacker_step s =
     (case attacker s of
        AwaitReady \<Rightarrow> (if ready s then Some (s\<lparr>attacker := Connecting\<rparr>) else None)
      | Connecting \<Rightarrow>
          Some (case connect (sock_file s) of
              Ok f \<Rightarrow> s\<lparr>sock_file := f, attacker := Connected\<rparr>
            | Err _ \<Rightarrow> s)
      | Connected \<Rightarrow> Some (s\<lparr>attacker := Sent\<rparr>)
      | Sent \<Rightarrow> None)"

text \<open>The server gives the attacker two seconds to send the connection, then it panics.\<close>

inductive step_001 :: "u32 \<Rightarrow> state_001 \<Rightarrow> state_001 \<Rightarrow> bool" for um :: u32 where
  server: "server_step um s = Some s' \<Longrightarrow> step_001 um s s'"
| attacker: "attacker_step s = Some s' \<Longrightarrow> step_001 um s s'"
| timeout: "server s = ReceiveStream bound restricted \<Longrightarrow> attacker s \<noteq> Sent \<Longrightarrow>
    step_001 um s (s\<lparr>server := Crashed UnwrapErr\<rparr>)"

text \<open>At the start an old socket file may be there, and the process has some umask.\<close>

definition init_001 :: "u32 option \<Rightarrow> u32 \<Rightarrow> state_001" where
  "init_001 old_mode old_umask = \<lparr>sock_file = \<lparr>umask = old_umask, sock_mode = old_mode, backlog = 0\<rparr>, stream = [], closed = False, server = RemoveFile,
     attacker = AwaitReady, ready = False\<rparr>"

text \<open>The end of \<open>main\<close>.\<close>

definition raced :: "u32 \<Rightarrow> u32 \<Rightarrow> u8 list \<Rightarrow> bool \<Rightarrow> bool" where
  "raced post_bind_mode post_chmod_mode buf rejected \<longleftrightarrow>
     post_bind_mode = mode_777 \<and> post_chmod_mode = 0 \<and> buf = served \<and> rejected"

definition report_001 :: "u32 \<Rightarrow> u32 \<Rightarrow> u8 list \<Rightarrow> bool \<Rightarrow> unit io" where
  "report_001 post_bind_mode post_chmod_mode buf rejected = block
     [println [VNat (unat post_bind_mode)],
      println [VNat (unat post_chmod_mode)],
      println [VBool rejected],
      println [VList (map (VNat \<circ> unat) buf)],
      if raced post_bind_mode post_chmod_mode buf rejected
      then block [println [], println [], exit_process 0]
      else block [println [], exit_process 1]]"

definition main_001 :: "state_001 \<Rightarrow> unit io option" where
  "main_001 s =
     (case server s of
        Finished bound restricted buf rejected \<Rightarrow> Some (report_001 bound restricted buf rejected)
      | Crashed e \<Rightarrow> Some ([], Inl (Panicked e))
      | _ \<Rightarrow> None)"

section \<open>What can be served\<close>

text \<open>
  Before the restriction the mode is the one \<open>bind\<close> left, afterwards it is 0; a connection
  exists only if the attacker has made one, and then \<open>bind\<close> left it allowed. The server
  crashes only by the timeout.
\<close>

fun past_accept :: "server_pc \<Rightarrow> bool" where
  "past_accept (ReceiveStream b r) = True"
| "past_accept (WriteServed b r) = True"
| "past_accept (DropServer b r) = True"
| "past_accept (ReadStream b r) = True"
| "past_accept (TryConnect b r buf) = True"
| "past_accept (JoinAttacker b r buf x) = True"
| "past_accept (Finished b r buf x) = True"
| "past_accept (Crashed e) = True"
| "past_accept _ = False"

definition bound_mode :: "u32 \<Rightarrow> u32" where
  "bound_mode um = mode_777 AND NOT um"

fun server_ok :: "u32 \<Rightarrow> state_001 \<Rightarrow> server_pc \<Rightarrow> bool" where
  "server_ok um s RemoveFile \<longleftrightarrow> \<not> ready s \<and> stream s = []"
| "server_ok um s SetUmask \<longleftrightarrow> \<not> ready s \<and> stream s = [] \<and> sock_mode (sock_file s) = None"
| "server_ok um s BindSocket \<longleftrightarrow>
     \<not> ready s \<and> stream s = [] \<and> sock_mode (sock_file s) = None \<and> umask (sock_file s) = um"
| "server_ok um s StatBound \<longleftrightarrow> \<not> ready s \<and> stream s = [] \<and> sock_mode (sock_file s) = Some (bound_mode um)"
| "server_ok um s (SendReady b) \<longleftrightarrow>
     b = bound_mode um \<and> stream s = [] \<and> sock_mode (sock_file s) = Some (bound_mode um)"
| "server_ok um s (SetPermissions b) \<longleftrightarrow>
     b = bound_mode um \<and> stream s = [] \<and> sock_mode (sock_file s) = Some (bound_mode um)"
| "server_ok um s (StatRestricted b) \<longleftrightarrow>
     b = bound_mode um \<and> stream s = [] \<and> sock_mode (sock_file s) = Some 0"
| "server_ok um s (Accept b r) \<longleftrightarrow> b = bound_mode um \<and> r = 0 \<and> stream s = [] \<and> sock_mode (sock_file s) = Some 0"
| "server_ok um s (ReceiveStream b r) \<longleftrightarrow>
     b = bound_mode um \<and> r = 0 \<and> stream s = [] \<and> sock_mode (sock_file s) = Some 0"
| "server_ok um s (WriteServed b r) \<longleftrightarrow>
     b = bound_mode um \<and> r = 0 \<and> stream s = [] \<and> sock_mode (sock_file s) = Some 0"
| "server_ok um s (DropServer b r) \<longleftrightarrow>
     b = bound_mode um \<and> r = 0 \<and> stream s = served \<and> sock_mode (sock_file s) = Some 0"
| "server_ok um s (ReadStream b r) \<longleftrightarrow>
     b = bound_mode um \<and> r = 0 \<and> stream s = served \<and> sock_mode (sock_file s) = Some 0"
| "server_ok um s (TryConnect b r buf) \<longleftrightarrow>
     b = bound_mode um \<and> r = 0 \<and> buf = served \<and> sock_mode (sock_file s) = Some 0"
| "server_ok um s (JoinAttacker b r buf x) \<longleftrightarrow> b = bound_mode um \<and> r = 0 \<and> buf = served \<and> x"
| "server_ok um s (Finished b r buf x) \<longleftrightarrow> b = bound_mode um \<and> r = 0 \<and> buf = served \<and> x"
| "server_ok um s (Crashed e) \<longleftrightarrow> e = UnwrapErr"

definition inv_001 :: "u32 \<Rightarrow> state_001 \<Rightarrow> bool" where
  "inv_001 um s \<longleftrightarrow> server_ok um s (server s) \<and> (ready s \<or> attacker s = AwaitReady) \<and>
     (if attacker s = Connected \<or> attacker s = Sent then bound_mode um AND owner_write \<noteq> 0
      else backlog (sock_file s) = 0 \<and> \<not> past_accept (server s))"

lemma bound_mode_bits: "bound_mode um AND mode_777 = bound_mode um"
  unfolding bound_mode_def by (simp add: ac_simps)

lemma utf8_served: "utf8_valid served"
  by (rule ascii_utf8) (simp add: served_def)

lemmas call_defs = then_at_def bind_socket_def stat_mode_def set_permissions_def connect_def may_connect_def

lemma server_ok_step:
  assumes "server_step um s = Some s'" "server_ok um s (server s)"
  shows "server_ok um s' (server s')"
proof (cases "server s")
  case (TryConnect b r buf)
  then show ?thesis using assms by (simp add: connect_def may_connect_def) auto
qed (use assms in \<open>auto simp: then_at_def bind_socket_def stat_mode_def set_permissions_def
      bound_mode_bits utf8_served bound_mode_def [symmetric] split: if_splits\<close>)

lemma server_frame:
  assumes "server_step um s = Some s'" "server_ok um s (server s)"
  shows "attacker s' = attacker s" "ready s \<Longrightarrow> ready s'"
    "backlog (sock_file s) = 0 \<and> \<not> past_accept (server s) \<Longrightarrow>
     backlog (sock_file s') = 0 \<and> \<not> past_accept (server s')"
  using assms
  by (cases "server s"; auto simp: call_defs split: if_splits)+

lemma inv_server_001: "server_step um s = Some s' \<Longrightarrow> inv_001 um s \<Longrightarrow> inv_001 um s'"
  using server_ok_step [of um s s'] server_frame [of um s s']
  unfolding inv_001_def by (auto split: if_splits)

lemma server_ok_frame:
  "sock_mode (sock_file t) = sock_mode (sock_file s) \<Longrightarrow> umask (sock_file t) = umask (sock_file s) \<Longrightarrow>
   ready t = ready s \<Longrightarrow> stream t = stream s \<Longrightarrow> server_ok um t pc = server_ok um s pc"
  by (cases pc) simp_all

lemma connect_allowed:
  "server_ok um s pc \<Longrightarrow> ready s \<Longrightarrow> \<not> past_accept pc \<Longrightarrow> may_connect (sock_file s) \<Longrightarrow>
   bound_mode um AND owner_write \<noteq> 0"
  by (cases pc) (simp_all add: may_connect_def)

lemma inv_attacker_001:
  assumes "attacker_step s = Some s'" "inv_001 um s"
  shows "inv_001 um s'"
proof -
  have "server s' = server s" "sock_mode (sock_file s') = sock_mode (sock_file s)"
    "umask (sock_file s') = umask (sock_file s)" "ready s' = ready s" "stream s' = stream s"
    using assms(1) by (cases "attacker s"; auto simp: connect_def split: if_splits)+
  then have "server_ok um s' (server s')" "ready s' \<or> attacker s' = AwaitReady"
    using assms server_ok_frame [of s' s um "server s"]
    by (cases "attacker s"; auto simp: inv_001_def split: if_splits)+
  moreover have "bound_mode um AND owner_write \<noteq> 0" if "attacker s' = Connected \<or> attacker s' = Sent"
    using assms that connect_allowed [of um s "server s"]
    by (cases "attacker s") (auto simp: inv_001_def connect_def split: if_splits)
  moreover have "backlog (sock_file s') = 0 \<and> \<not> past_accept (server s')"
    if "\<not> (attacker s' = Connected \<or> attacker s' = Sent)"
    using assms that by (cases "attacker s") (auto simp: inv_001_def connect_def split: if_splits)
  ultimately show ?thesis unfolding inv_001_def by simp
qed

lemma inv_step_001: "step_001 um s s' \<Longrightarrow> inv_001 um s \<Longrightarrow> inv_001 um s'"
proof (induction rule: step_001.induct)
  case (timeout s bound restricted)
  then show ?case by (auto simp: inv_001_def split: if_splits)
qed (auto intro: inv_server_001 inv_attacker_001)

interpretation listener: step_invariant "step_001 um" "inv_001 um"
  by unfold_locales (rule inv_step_001)

lemma inv_reachable_001: "(step_001 um)\<^sup>*\<^sup>* (init_001 old_mode old_umask) s \<Longrightarrow> inv_001 um s"
  by (erule listener.reachable) (simp add: inv_001_def init_001_def)

lemma finished_001:
  assumes "(step_001 um)\<^sup>*\<^sup>* (init_001 old_mode old_umask) s" "server s = Finished b r buf x"
  shows "bound_mode um AND owner_write \<noteq> 0 \<and> b = bound_mode um \<and> r = 0 \<and> buf = served \<and> x"
  using inv_reachable_001 [OF assms(1)] assms(2) by (auto simp: inv_001_def split: if_splits)

lemma crashed_001:
  assumes "(step_001 um)\<^sup>*\<^sup>* (init_001 old_mode old_umask) s" "server s = Crashed e"
  shows "bound_mode um AND owner_write \<noteq> 0 \<and> e = UnwrapErr"
  using inv_reachable_001 [OF assms(1)] assms(2) by (auto simp: inv_001_def split: if_splits)

text \<open>The run in which the attacker wins: it connects between \<open>bind\<close> and the restriction.\<close>

datatype party = Server | Attacker

definition move_001 :: "u32 \<Rightarrow> party \<Rightarrow> state_001 \<Rightarrow> state_001 option" where
  "move_001 um p s = (case p of Server \<Rightarrow> server_step um s | Attacker \<Rightarrow> attacker_step s)"

lemma move_001_step: "move_001 um p s = Some t \<Longrightarrow> step_001 um s t"
  by (auto simp: move_001_def intro: step_001.intros split: party.splits)

lemma attack_schedule:
  assumes "bound_mode um AND owner_write \<noteq> 0"
  shows "map_option server (schedule (move_001 um)
      (replicate 5 Server @ replicate 3 Attacker @ replicate 9 Server) (init_001 old_mode old_umask)) =
    Some (Finished (bound_mode um) 0 served True)"
  using assms bound_mode_bits [of um]
  by (simp add: move_001_def init_001_def call_defs utf8_served bound_mode_def eval_nat_numeral)

lemma attack_run_001:
  assumes "bound_mode um AND owner_write \<noteq> 0"
  shows "\<exists>s. (step_001 um)\<^sup>*\<^sup>* (init_001 old_mode old_umask) s \<and> server s = Finished (bound_mode um) 0 served True"
proof -
  obtain s where run: "schedule (move_001 um) (replicate 5 Server @ replicate 3 Attacker @ replicate 9 Server)
      (init_001 old_mode old_umask) = Some s" and "server s = Finished (bound_mode um) 0 served True"
    using attack_schedule [OF assms, of old_mode old_umask] by (auto simp: map_option_eq_Some)
  moreover have "(step_001 um)\<^sup>*\<^sup>* (init_001 old_mode old_umask) s"
    by (rule schedule_run [OF move_001_step run])
  ultimately show ?thesis by blast
qed

text \<open>C12. Over all interleavings, and whatever file was there before, the program can get past
  \<open>accept\<close> and report if and only if the umask leaves the owner's write permission on the
  bound socket: the attacker's connection from the window between \<open>bind\<close> and the restriction
  is then served after it. The status of every report is 0 for a umask that leaves the mode
  unrestricted and 1 for another one; with a umask that withholds the permission no
  interleaving serves anyone.\<close>

theorem bind_window:
  "{e. \<exists>s m. (step_001 um)\<^sup>*\<^sup>* (init_001 old_mode old_umask) s \<and> main_001 s = Some m \<and>
        exit_of m = Exited e} =
   (if bound_mode um AND owner_write = 0 then {}
    else if bound_mode um = mode_777 then {0} else {1})"
proof -
  have report: "exit_of (report_001 b 0 served True) = Exited (if b = mode_777 then 0 else 1)" for b
    by (simp add: report_001_def raced_def exit_simps)
  have "e = (if bound_mode um = mode_777 then 0 else 1) \<and> bound_mode um AND owner_write \<noteq> 0"
    if run: "(step_001 um)\<^sup>*\<^sup>* (init_001 old_mode old_umask) s" "main_001 s = Some m" "exit_of m = Exited e" for s m e
    using run(2,3) finished_001 [OF run(1)] report [of "bound_mode um"]
    by (auto simp: main_001_def exit_simps split: server_pc.splits)
  moreover have "\<exists>s m. (step_001 um)\<^sup>*\<^sup>* (init_001 old_mode old_umask) s \<and> main_001 s = Some m \<and>
      exit_of m = Exited (if bound_mode um = mode_777 then 0 else 1)"
    if allowed: "bound_mode um AND owner_write \<noteq> 0"
  proof -
    obtain s where s: "(step_001 um)\<^sup>*\<^sup>* (init_001 old_mode old_umask) s"
        "server s = Finished (bound_mode um) 0 served True"
      using attack_run_001 [OF allowed] by blast
    then have "main_001 s = Some (report_001 (bound_mode um) 0 served True)" by (simp add: main_001_def)
    with s(1) report show ?thesis by blast
  qed
  ultimately have "(\<exists>s m. (step_001 um)\<^sup>*\<^sup>* (init_001 old_mode old_umask) s \<and> main_001 s = Some m \<and>
      exit_of m = Exited e) =
    (bound_mode um AND owner_write \<noteq> 0 \<and> e = (if bound_mode um = mode_777 then 0 else 1))" for e
    by blast
  then show ?thesis by (simp only:) auto
qed

text \<open>With the umask the program sets, every run that ends reports the race or times out.\<close>

lemma main_001_outcome:
  assumes "(step_001 0)\<^sup>*\<^sup>* (init_001 old_mode old_umask) s" "main_001 s = Some m"
  shows "exit_of m = Exited 0 \<or> exit_of m = Panicked UnwrapErr"
  using assms(2) finished_001 [OF assms(1)] crashed_001 [OF assms(1)]
  by (auto simp: main_001_def report_001_def raced_def bound_mode_def exit_simps split: server_pc.splits)


section \<open>Who can still end\<close>

text \<open>
  The server blocks in \<open>accept\<close>, which has no timeout. \<open>connects\<close> says that the attacker has a
  connection or can still get one: the restriction is not in force yet.
\<close>

fun unrestricted :: "server_pc \<Rightarrow> bool" where
  "unrestricted RemoveFile = True"
| "unrestricted SetUmask = True"
| "unrestricted BindSocket = True"
| "unrestricted StatBound = True"
| "unrestricted (SendReady b) = True"
| "unrestricted (SetPermissions b) = True"
| "unrestricted _ = False"

fun has_connection :: "attacker_pc \<Rightarrow> bool" where
  "has_connection Connected = True"
| "has_connection Sent = True"
| "has_connection _ = False"

definition connects :: "u32 \<Rightarrow> state_001 \<Rightarrow> bool" where
  "connects um s \<longleftrightarrow> bound_mode um AND owner_write \<noteq> 0 \<and>
     (has_connection (attacker s) \<or> unrestricted (server s))"

text \<open>A connection that is not accepted yet is in the backlog; the server closes before it
  reads, and has woken the attacker before it restricts.\<close>

definition queued :: "state_001 \<Rightarrow> bool" where
  "queued s \<longleftrightarrow>
     (if has_connection (attacker s) \<and> \<not> past_accept (server s) then 0 < backlog (sock_file s) else True) \<and>
     (case server s of ReadStream b r \<Rightarrow> closed s | SetPermissions b \<Rightarrow> ready s | _ \<Rightarrow> True)"

definition live_inv :: "u32 \<Rightarrow> state_001 \<Rightarrow> bool" where
  "live_inv um s \<longleftrightarrow> inv_001 um s \<and> queued s"

lemma queued_server: "server_step um s = Some s' \<Longrightarrow> inv_001 um s \<Longrightarrow> queued s \<Longrightarrow> queued s'"
  by (cases "server s") (auto simp: inv_001_def queued_def call_defs split: if_splits)

lemma queued_attacker: "attacker_step s = Some s' \<Longrightarrow> queued s \<Longrightarrow> queued s'"
  by (cases "attacker s") (auto simp: queued_def connect_def split: if_splits server_pc.splits)

lemma live_inv_step: "step_001 um s s' \<Longrightarrow> live_inv um s \<Longrightarrow> live_inv um s'"
proof (induction rule: step_001.induct)
  case (server s s')
  then show ?case using queued_server inv_step_001 step_001.server unfolding live_inv_def by blast
next
  case (attacker s s')
  then show ?case using queued_attacker inv_step_001 step_001.attacker unfolding live_inv_def by blast
next
  case (timeout s b r)
  then show ?case using inv_step_001 step_001.timeout unfolding live_inv_def by (fastforce simp: queued_def)
qed

interpretation listener_live: step_invariant "step_001 um" "live_inv um"
  by unfold_locales (rule live_inv_step)

lemma live_inv_start: "live_inv um (init_001 old_mode old_umask)"
  by (simp add: live_inv_def inv_001_def queued_def init_001_def)

fun server_to_do :: "server_pc \<Rightarrow> nat" where
  "server_to_do RemoveFile = 14"
| "server_to_do SetUmask = 13"
| "server_to_do BindSocket = 12"
| "server_to_do StatBound = 11"
| "server_to_do (SendReady b) = 10"
| "server_to_do (SetPermissions b) = 9"
| "server_to_do (StatRestricted b) = 8"
| "server_to_do (Accept b r) = 7"
| "server_to_do (ReceiveStream b r) = 6"
| "server_to_do (WriteServed b r) = 5"
| "server_to_do (DropServer b r) = 4"
| "server_to_do (ReadStream b r) = 3"
| "server_to_do (TryConnect b r buf) = 2"
| "server_to_do (JoinAttacker b r buf x) = 1"
| "server_to_do _ = 0"

fun attacker_to_do :: "attacker_pc \<Rightarrow> nat" where
  "attacker_to_do AwaitReady = 3"
| "attacker_to_do Connecting = 2"
| "attacker_to_do Connected = 1"
| "attacker_to_do Sent = 0"

definition work_001 :: "state_001 \<Rightarrow> nat" where
  "work_001 s = server_to_do (server s) + attacker_to_do (attacker s)"

definition ended :: "state_001 \<Rightarrow> bool" where
  "ended s \<longleftrightarrow> main_001 s \<noteq> None"

text \<open>The attacker moves when it can get or send a connection, otherwise the server does.\<close>

lemma sent_server_moves:
  assumes "live_inv um s" "attacker s = Sent" "\<not> ended s"
  shows "\<exists>t. server_step um s = Some t \<and> attacker t = Sent \<and> server_to_do (server t) < server_to_do (server s)"
  using assms
  by (cases "server s")
    (auto simp: live_inv_def inv_001_def queued_def ended_def main_001_def call_defs split: if_splits)

lemma waiting_server_moves:
  assumes "live_inv um s" "unrestricted (server s)" "\<not> ready s"
  shows "\<exists>t. server_step um s = Some t \<and> attacker t = attacker s \<and> unrestricted (server t) \<and>
    server_to_do (server t) < server_to_do (server s)"
  using assms
  by (cases "server s")
    (auto simp: live_inv_def inv_001_def queued_def call_defs split: if_splits)

lemma attacker_moves:
  assumes "live_inv um s" "connects um s" "attacker s \<noteq> Sent" "has_connection (attacker s) \<or> ready s"
  shows "\<exists>t. attacker_step s = Some t \<and> server t = server s \<and> (has_connection (attacker t) \<or> unrestricted (server t)) \<and>
    attacker_to_do (attacker t) < attacker_to_do (attacker s)"
  using assms
  by (cases "attacker s"; cases "server s")
    (auto simp: live_inv_def inv_001_def connects_def connect_def may_connect_def)

interpretation ending: reachable_goal "step_001 um" "\<lambda>s. live_inv um s \<and> connects um s" ended work_001
proof
  fix s
  assume "live_inv um s \<and> connects um s" "\<not> ended s"
  then have s: "live_inv um s" "connects um s" and more: "\<not> ended s" by simp_all
  have "\<exists>t. step_001 um s t \<and> connects um t \<and> work_001 t < work_001 s"
  proof (cases "attacker s = Sent")
    case True
    from sent_server_moves [OF s(1) this more] show ?thesis
      using s(2) step_001.server by (fastforce simp: connects_def work_001_def True)
  next
    case False
    show ?thesis
    proof (cases "has_connection (attacker s) \<or> ready s")
      case True
      from attacker_moves [OF s False this] show ?thesis
        using s(2) step_001.attacker by (fastforce simp: connects_def work_001_def)
    next
      case no: False
      then have "unrestricted (server s)" using s(2) by (simp add: connects_def)
      from waiting_server_moves [OF s(1) this] no show ?thesis
        using s(2) step_001.server by (fastforce simp: connects_def work_001_def)
    qed
  qed
  then show "\<exists>t. step_001 um s t \<and> (live_inv um t \<and> connects um t) \<and> work_001 t < work_001 s"
    using live_inv_step s(1) by blast
qed

text \<open>Without a connection and with the restriction in force nothing changes that any more.\<close>

lemma lost_step:
  assumes "step_001 um s t" "inv_001 um s" "\<not> connects um s"
  shows "\<not> connects um t"
proof -
  have t: "inv_001 um t" using inv_step_001 assms(1,2) by blast
  show ?thesis
  proof (cases "bound_mode um AND owner_write = 0")
    case True
    then show ?thesis by (simp add: connects_def)
  next
    case False
    then have none: "\<not> has_connection (attacker s)" "\<not> unrestricted (server s)" "\<not> past_accept (server s)"
      using assms(2,3) by (cases "attacker s"; auto simp: connects_def inv_001_def split: if_splits)+
    from assms(1) show ?thesis
    proof cases
      case server
      then show ?thesis using none assms(2)
        by (cases "server s"; cases "attacker s")
          (auto simp: connects_def inv_001_def call_defs split: if_splits)
    next
      case attacker
      then show ?thesis using none assms(2)
        by (cases "server s"; cases "attacker s")
          (auto simp: connects_def inv_001_def call_defs split: if_splits)
    qed (use none in auto)
  qed
qed

interpretation lost: step_invariant "step_001 um" "\<lambda>s. inv_001 um s \<and> \<not> connects um s"
  by unfold_locales (use lost_step inv_step_001 in blast)

lemma lost_not_ended: "inv_001 um s \<Longrightarrow> \<not> connects um s \<Longrightarrow> \<not> ended s"
  by (cases "server s"; cases "attacker s")
    (auto simp: ended_def main_001_def connects_def inv_001_def split: if_splits)

text \<open>C13. At every point of every run the program can still come to an end, by a report or by the
  timeout, exactly when the attacker has a connection or the restriction is not in force yet
  and the umask lets it connect. A run in which the attacker misses the window never ends:
  the server stays in \<open>accept\<close> and the attacker keeps trying.\<close>

theorem listener_can_end:
  assumes "(step_001 um)\<^sup>*\<^sup>* (init_001 old_mode old_umask) s"
  shows "(\<exists>t m. (step_001 um)\<^sup>*\<^sup>* s t \<and> main_001 t = Some m) = connects um s"
proof
  assume "\<exists>t m. (step_001 um)\<^sup>*\<^sup>* s t \<and> main_001 t = Some m"
  then obtain t where "(step_001 um)\<^sup>*\<^sup>* s t" "ended t" by (auto simp: ended_def)
  then show "connects um s"
    using lost.reachable [of um s t] lost_not_ended inv_reachable_001 [OF assms] by blast
next
  assume "connects um s"
  moreover have "live_inv um s" using listener_live.reachable [OF assms live_inv_start] .
  ultimately obtain t where "(step_001 um)\<^sup>*\<^sup>* s t" "ended t" using ending.goal_reached by blast
  then show "\<exists>t m. (step_001 um)\<^sup>*\<^sup>* s t \<and> main_001 t = Some m" by (auto simp: ended_def)
qed

text \<open>The attacker loses when the server runs alone up to \<open>accept\<close>.\<close>

theorem listener_can_end_witness:
  "\<exists>s. (step_001 0)\<^sup>*\<^sup>* (init_001 None 18) s \<and> \<not> (\<exists>t m. (step_001 0)\<^sup>*\<^sup>* s t \<and> main_001 t = Some m)"
proof -
  obtain s where run: "schedule (move_001 0) (replicate 7 Server) (init_001 None 18) = Some s"
      and "server s = Accept (bound_mode 0) 0" "attacker s = AwaitReady"
    by (simp add: move_001_def init_001_def call_defs bound_mode_def eval_nat_numeral)
  moreover have "(step_001 0)\<^sup>*\<^sup>* (init_001 None 18) s" by (rule schedule_run [OF move_001_step run])
  ultimately show ?thesis using listener_can_end [of 0 None 18 s] by (auto simp: connects_def)
qed

end
