(* ===== verification/Decimal.thy ===== *)
theory Decimal
  imports Prelude
begin

text \<open>
  Decimal numbers as the standard library prints and parses them: \<open>Display\<close> of an unsigned
  integer, and \<open>from_str\<close> of \<open>usize\<close> over the bytes of a string, with its optional plus
  sign and its overflow check. The two are inverse to each other.
\<close>

section \<open>Printing\<close>

fun decimal :: "nat \<Rightarrow> u8 list" where
  "decimal n =
     (if n < 10 then [word_of_nat (48 + n)]
      else decimal (n div 10) @ [word_of_nat (48 + n mod 10)])"

declare decimal.simps [simp del]

section \<open>Parsing\<close>

definition ascii_plus :: u8 where
  "ascii_plus = 43"

definition ascii_minus :: u8 where
  "ascii_minus = 45"

definition to_digit :: "u8 \<Rightarrow> nat option" where
  "to_digit b = (if 48 \<le> b \<and> b \<le> 57 then Some (unat b - 48) else None)"

definition checked_mul :: "'a::len word \<Rightarrow> 'a word \<Rightarrow> 'a word option" where
  "checked_mul x y = (if 2 ^ LENGTH('a) \<le> unat x * unat y then None else Some (x * y))"

fun parse_digits :: "usize \<Rightarrow> u8 list \<Rightarrow> usize option" where
  "parse_digits acc [] = Some acc"
| "parse_digits acc (b # bs) =
     (case to_digit b of
        None \<Rightarrow> None
      | Some d \<Rightarrow>
          (case checked_mul acc 10 of
             None \<Rightarrow> None
           | Some m \<Rightarrow>
               (case checked_add m (word_of_nat d) of
                  None \<Rightarrow> None
                | Some acc \<Rightarrow> parse_digits acc bs)))"

definition usize_from_str :: "u8 list \<Rightarrow> usize option" where
  "usize_from_str src =
     (if src = [] \<or> src = [ascii_plus] \<or> src = [ascii_minus] then None
      else parse_digits 0 (if hd src = ascii_plus then tl src else src))"

section \<open>The number a digit string denotes\<close>

definition ascii_digit :: "u8 \<Rightarrow> bool" where
  "ascii_digit b \<longleftrightarrow> 48 \<le> b \<and> b \<le> 57"

fun digits_value :: "nat \<Rightarrow> u8 list \<Rightarrow> nat" where
  "digits_value acc [] = acc"
| "digits_value acc (b # bs) = digits_value (acc * 10 + (unat b - 48)) bs"

lemma digits_value_ge: "acc \<le> digits_value acc bs"
proof (induction bs arbitrary: acc)
  case (Cons b bs)
  have "acc \<le> acc * 10 + (unat b - 48)" by simp
  also have "\<dots> \<le> digits_value (acc * 10 + (unat b - 48)) bs" by (rule Cons.IH)
  finally show ?case by simp
qed simp

lemma to_digit_bound: "to_digit b = Some d \<Longrightarrow> ascii_digit b \<and> d = unat b - 48 \<and> d < 10"
  by (auto simp: to_digit_def ascii_digit_def word_le_nat_alt split: if_splits)

lemma to_digit_None: "to_digit b = None \<longleftrightarrow> \<not> ascii_digit b"
  by (auto simp: to_digit_def ascii_digit_def)

text \<open>The loop succeeds exactly on digit strings whose number fits, and returns that number.\<close>

lemma parse_digits_eq:
  "parse_digits acc bs =
     (if list_all ascii_digit bs \<and> digits_value (unat acc) bs < 2 ^ 64
      then Some (word_of_nat (digits_value (unat acc) bs)) else None)"
proof (induction bs arbitrary: acc)
  case Nil
  have "unat acc < 2 ^ 64" using unat_word_less [of acc] by simp
  then show ?case by simp
next
  case (Cons b bs)
  show ?case
  proof (cases "to_digit b")
    case None
    then have "\<not> ascii_digit b" by (rule to_digit_None [THEN iffD1])
    then show ?thesis by (simp add: None)
  next
    case (Some d)
    then have d: "ascii_digit b" "d = unat b - 48" "d < 10" using to_digit_bound by blast+
    have ud: "unat (word_of_nat d :: usize) = d" unfolding unat_of_nat using d(3) by simp
    note ge = digits_value_ge [of "unat acc * 10 + d" bs]
    show ?thesis
    proof (cases "unat acc * 10 + d < 2 ^ 64")
      case True
      then have m: "unat (acc * 10) = unat acc * 10" by (subst unat_mult_exact) simp_all
      then have a: "unat (acc * 10 + word_of_nat d) = unat acc * 10 + d"
        using True by (subst unat_add_exact) (simp_all add: ud)
      have mm: "checked_mul acc 10 = Some (acc * 10)" using True by (simp add: checked_mul_def)
      have "\<not> 2 ^ LENGTH(64) \<le> unat (acc * 10) + unat (word_of_nat d :: usize)"
        using True m ud by simp
      then have aa: "checked_add (acc * 10) (word_of_nat d) = Some (acc * 10 + word_of_nat d)"
        by (simp only: checked_add_def if_False)
      show ?thesis
        by (simp only: parse_digits.simps Some option.case mm aa Cons.IH a list.pred_inject
            digits_value.simps d(1) d(2) [symmetric] simp_thms)
    next
      case False
      have "checked_mul acc 10 = None \<or>
          (\<exists>m. checked_mul acc 10 = Some m \<and> checked_add m (word_of_nat d) = None)"
      proof (cases "2 ^ 64 \<le> unat acc * 10")
        case True
        then show ?thesis by (simp add: checked_mul_def)
      next
        case mul: False
        then have m: "unat (acc * 10) = unat acc * 10" by (subst unat_mult_exact) simp_all
        have "2 ^ LENGTH(64) \<le> unat (acc * 10) + unat (word_of_nat d :: usize)"
          using False m ud by simp
        then have "checked_add (acc * 10) (word_of_nat d) = None"
          by (simp only: checked_add_def if_True)
        then show ?thesis using mul by (simp add: checked_mul_def)
      qed
      then have "parse_digits acc (b # bs) = None" by (auto simp: Some)
      moreover have "\<not> digits_value (unat acc) (b # bs) < 2 ^ 64" using False ge d(2) by simp
      ultimately show ?thesis by simp
    qed
  qed
qed

section \<open>Printing and parsing are inverse\<close>

lemma unat_digit_byte: "d < 10 \<Longrightarrow> unat (word_of_nat (48 + d) :: u8) = 48 + d"
  unfolding unat_of_nat by simp

lemma ascii_digit_byte: "d < 10 \<Longrightarrow> ascii_digit (word_of_nat (48 + d))"
  unfolding ascii_digit_def word_le_nat_alt unat_digit_byte by simp

lemma digits_value_append: "digits_value acc (bs @ cs) = digits_value (digits_value acc bs) cs"
  by (induction bs arbitrary: acc) auto

lemma decimal_digits: "list_all ascii_digit (decimal n) \<and> decimal n \<noteq> [] \<and> digits_value 0 (decimal n) = n"
proof (induction n rule: less_induct)
  case (less n)
  show ?case
  proof (cases "n < 10")
    case True
    then show ?thesis
      by (simp add: decimal.simps [of n] ascii_digit_byte unat_digit_byte del: of_nat_add)
  next
    case False
    then show ?thesis
      using less [of "n div 10"]
      by (simp add: decimal.simps [of n] digits_value_append ascii_digit_byte unat_digit_byte del: of_nat_add)
  qed
qed

lemma usize_from_str_eq:
  "usize_from_str src =
     (let ds = (if src \<noteq> [] \<and> hd src = ascii_plus then tl src else src) in
      if ds \<noteq> [] \<and> list_all ascii_digit ds \<and> digits_value 0 ds < 2 ^ 64
      then Some (word_of_nat (digits_value 0 ds)) else None)"
proof -
  have nd: "\<not> ascii_digit ascii_plus" "\<not> ascii_digit ascii_minus"
    by (simp_all add: ascii_digit_def ascii_plus_def ascii_minus_def)
  show ?thesis
    by (cases src; cases "tl src") (auto simp: usize_from_str_def parse_digits_eq Let_def nd)
qed

lemma usize_from_str_decimal:
  "usize_from_str (decimal n) = (if n < 2 ^ 64 then Some (word_of_nat n) else None)"
proof -
  note d = decimal_digits [of n]
  have "\<not> ascii_digit ascii_plus" by (simp add: ascii_digit_def ascii_plus_def)
  then have "hd (decimal n) \<noteq> ascii_plus" using d by (cases "decimal n") auto
  then show ?thesis using d by (simp add: usize_from_str_eq)
qed

end
