(* ===== verification/Http_Request.thy ===== *)
theory Http_Request
  imports Prelude Decimal
begin

text \<open>
  The header loop of an HTTP server that lets the last \<open>Content-Length\<close> win (pushpin 012).
  The parser crate is not part of the sources: a parsed request is a record of the fields the
  program reads, and \<open>parse\<close> is an argument of \<open>main\<close>. Header values are byte lists.
\<close>

section \<open>The program\<close>

datatype http_error = InvalidContentLength | UnsupportedTransferEncoding

datatype body_size = NoBody | Known usize | Unknown

record http_header =
  hdr_name :: string
  hdr_value :: "u8 list"

record request =
  version :: "u8 option"
  headers :: "http_header list"
  req_method :: "string option"
  req_path :: "string option"

definition parse_as_int :: "u8 list \<Rightarrow> (usize, unit) result" where
  "parse_as_int src =
     (if utf8_valid src
      then (case usize_from_str src of None \<Rightarrow> Err () | Some n \<Rightarrow> Ok n)
      else Err ())"

definition ascii_lower :: "char \<Rightarrow> char" where
  "ascii_lower c =
     (let n = (of_char c :: nat) in if 65 \<le> n \<and> n \<le> 90 then char_of (n + 32) else c)"

definition eq_ignore_ascii_case :: "string \<Rightarrow> string \<Rightarrow> bool" where
  "eq_ignore_ascii_case s t \<longleftrightarrow> map ascii_lower s = map ascii_lower t"

definition bytes :: "string \<Rightarrow> u8 list" where
  "bytes s = map of_char s"

fun header_loop ::
  "http_header list \<Rightarrow> usize option \<Rightarrow> bool \<Rightarrow> (usize option \<times> bool, http_error) result" where
  "header_loop [] content_len chunked = Ok (content_len, chunked)"
| "header_loop (h # hs) content_len chunked =
     (if eq_ignore_ascii_case (hdr_name h) ''Content-Length'' then
        (case parse_as_int (hdr_value h) of
           Err _ \<Rightarrow> Err InvalidContentLength
         | Ok len \<Rightarrow> header_loop hs (Some len) chunked)
      else if eq_ignore_ascii_case (hdr_name h) ''Transfer-Encoding'' then
        (if hdr_value h = bytes ''chunked'' then header_loop hs content_len True
         else Err UnsupportedTransferEncoding)
      else header_loop hs content_len chunked)"

definition process_request :: "request \<Rightarrow> (body_size \<times> bool, http_error) result run" where
  "process_request req =
     bind_run (unwrap_option (version req)) (\<lambda>v. Inr
       (case header_loop (headers req) None False of
          Err e \<Rightarrow> Err e
        | Ok (content_len, chunked) \<Rightarrow>
            (let body_size =
                (if chunked then Unknown
                 else (case content_len of Some len \<Rightarrow> Known len | None \<Rightarrow> NoBody));
                 chunk_left = (case body_size of Known len \<Rightarrow> len | _ \<Rightarrow> 0)
             in Ok (body_size, chunk_left \<noteq> 0))))"

definition crlf :: "u8 list" where
  "crlf = [13, 10]"

definition raw_012 :: "u8 list" where
  "raw_012 = bytes ''POST / HTTP/1.1'' @ crlf @ bytes ''Host: example'' @ crlf @
     bytes ''Content-Length: 5'' @ crlf @ bytes ''Content-Length: 3'' @ crlf @ crlf @
     bytes ''abcGET /smuggled HTTP/1.1'' @ crlf @ bytes ''Host: example'' @ crlf @ crlf"

text \<open>
  \<open>parse\<close> returns the request with \<open>Some n\<close> when the head is complete after \<open>n\<close> bytes and
  \<open>None\<close> when it is partial. The texts are unwrapped UTF-8 before they are printed.
\<close>

definition utf8_text :: "u8 list \<Rightarrow> u8 list run" where
  "utf8_text bs = (if utf8_valid bs then Inr bs else Inl UnwrapErr)"

definition text_or_empty :: "string option \<Rightarrow> string" where
  "text_or_empty t = (case t of None \<Rightarrow> [] | Some s \<Rightarrow> s)"

definition main_012 :: "build \<Rightarrow> (u8 list \<Rightarrow> (usize option \<times> request, unit) result) \<Rightarrow> unit io" where
  "main_012 b parse =
     lift_run (unwrap_result (parse raw_012)) (\<lambda>(status, req).
       case status of
         None \<Rightarrow> panic_now
       | Some header_end \<Rightarrow>
           lift_run (bind_run (process_request req) unwrap_result) (\<lambda>(body_size, _).
             case body_size of
               Known n \<Rightarrow>
                 (let body_len = n in
                  lift_run (prim_add b header_end body_len) (\<lambda>body_end.
                  lift_run (slice_range raw_012 (unat header_end) (unat body_end)) (\<lambda>body.
                  lift_run (prim_add b header_end body_len) (\<lambda>rest_from.
                  lift_run (slice_from raw_012 (unat rest_from)) (\<lambda>leftover. block
                    [println [],
                     println [VNat (unat body_len)],
                     lift_run (utf8_text body) (\<lambda>t. println [VList (map (VNat \<circ> unat) t)]),
                     lift_run (utf8_text leftover) (\<lambda>t. println [VList (map (VNat \<circ> unat) t)]),
                     lift_run (unwrap_result (parse leftover)) (\<lambda>(parsed, smuggled).
                       let smuggled_complete = (parsed \<noteq> None);
                           vulnerable = (body_len = 3 \<and> body = bytes ''abc'' \<and> smuggled_complete \<and>
                             req_method smuggled = Some ''GET'' \<and> req_path smuggled = Some ''/smuggled'')
                       in block
                         [println [VBool smuggled_complete, VStr (text_or_empty (req_method smuggled)),
                            VStr (text_or_empty (req_path smuggled))],
                          if vulnerable then block [println [], exit_process 0]
                          else block [println [], exit_process 1]])])))))
             | _ \<Rightarrow> panic_now))"

section \<open>Content lengths\<close>

lemma digit_ascii: "ascii_digit b \<Longrightarrow> b < 0x80"
  by (simp add: ascii_digit_def word_le_nat_alt word_less_nat_alt)

lemma digits_utf8: "list_all ascii_digit bs \<Longrightarrow> utf8_valid bs"
  by (induction bs) (simp_all add: digit_ascii)

lemma parse_as_int_eq:
  "parse_as_int src =
     (let ds = (if src \<noteq> [] \<and> hd src = ascii_plus then tl src else src) in
      if ds \<noteq> [] \<and> list_all ascii_digit ds \<and> digits_value 0 ds < 2 ^ 64
      then Ok (word_of_nat (digits_value 0 ds)) else Err ())"
proof (cases "src \<noteq> [] \<and> hd src = ascii_plus")
  case True
  then obtain bs where "src = ascii_plus # bs" by (cases src) auto
  then show ?thesis
    using digits_utf8 [of bs] by (simp add: parse_as_int_def usize_from_str_eq Let_def) (simp add: ascii_plus_def)
next
  case False
  then show ?thesis
    using digits_utf8 [of src] by (auto simp: parse_as_int_def usize_from_str_eq Let_def)
qed

lemma parse_as_int_decimal:
  "parse_as_int (decimal n) = (if n < 2 ^ 64 then Ok (word_of_nat n) else Err ())"
proof -
  have "utf8_valid (decimal n)" using digits_utf8 decimal_digits [of n] by blast
  then show ?thesis by (simp add: parse_as_int_def usize_from_str_decimal)
qed

text \<open>C22. A length is accepted exactly when it is a nonempty digit string, with at most one plus
  sign in front, whose number fits in 64 bits, and then it is that number.\<close>

theorem content_length_grammar:
  "parse_as_int src =
     (let ds = (if src \<noteq> [] \<and> hd src = ascii_plus then tl src else src) in
      if ds \<noteq> [] \<and> list_all ascii_digit ds \<and> digits_value 0 ds < 2 ^ 64
      then Ok (word_of_nat (digits_value 0 ds)) else Err ()) \<and>
   parse_as_int (decimal n) = (if n < 2 ^ 64 then Ok (word_of_nat n) else Err ())"
  using parse_as_int_eq [of src] parse_as_int_decimal [of n] by blast

section \<open>The header loop\<close>

definition is_content_length :: "http_header \<Rightarrow> bool" where
  "is_content_length h \<longleftrightarrow> eq_ignore_ascii_case (hdr_name h) ''Content-Length''"

definition is_transfer_encoding :: "http_header \<Rightarrow> bool" where
  "is_transfer_encoding h \<longleftrightarrow> eq_ignore_ascii_case (hdr_name h) ''Transfer-Encoding''"

lemma header_kinds_disjoint: "is_content_length h \<Longrightarrow> \<not> is_transfer_encoding h"
  unfolding is_content_length_def is_transfer_encoding_def eq_ignore_ascii_case_def
  by (drule arg_cong [where f = length]) (auto dest: arg_cong [where f = length])

text \<open>What a header is worth on its own: an error, a length, the chunked flag or nothing.\<close>

definition header_error :: "http_header \<Rightarrow> http_error option" where
  "header_error h =
     (if is_content_length h
      then (case parse_as_int (hdr_value h) of Err _ \<Rightarrow> Some InvalidContentLength | Ok _ \<Rightarrow> None)
      else if is_transfer_encoding h \<and> hdr_value h \<noteq> bytes ''chunked''
      then Some UnsupportedTransferEncoding else None)"

definition header_length :: "http_header \<Rightarrow> usize option" where
  "header_length h =
     (if is_content_length h
      then (case parse_as_int (hdr_value h) of Err _ \<Rightarrow> None | Ok n \<Rightarrow> Some n) else None)"

lemma header_loop_eq:
  "header_loop hs content_len chunked =
     (case List.map_filter header_error hs of
        e # _ \<Rightarrow> Err e
      | [] \<Rightarrow>
          Ok (case List.map_filter header_length hs of [] \<Rightarrow> content_len | ls \<Rightarrow> Some (last ls),
              chunked \<or> list_ex is_transfer_encoding hs))"
proof (induction hs arbitrary: content_len chunked)
  case (Cons h hs)
  have step: "header_loop (h # hs) content_len chunked =
     (case header_error h of
        Some e \<Rightarrow> Err e
      | None \<Rightarrow> header_loop hs (case header_length h of None \<Rightarrow> content_len | Some n \<Rightarrow> Some n)
          (chunked \<or> is_transfer_encoding h))"
    using header_kinds_disjoint [of h]
    by (auto simp: header_error_def header_length_def is_content_length_def is_transfer_encoding_def
        split: result.splits)
  show ?case
    unfolding step Cons.IH
    by (auto simp: map_filter_simps split: option.splits list.splits)
qed simp

text \<open>C5. The request handler in full: it panics exactly without a version; the first offending
  header decides the error; otherwise any accepted \<open>Transfer-Encoding\<close> makes the body
  chunked, and failing that the last \<open>Content-Length\<close> alone is its length, whatever the
  earlier ones say.\<close>

theorem process_request_spec:
  "process_request req =
     (if version req = None then Inl UnwrapNone
      else Inr (case List.map_filter header_error (headers req) of
          e # _ \<Rightarrow> Err e
        | [] \<Rightarrow>
            if list_ex is_transfer_encoding (headers req) then Ok (Unknown, False)
            else (case List.map_filter header_length (headers req) of
                [] \<Rightarrow> Ok (NoBody, False)
              | ls \<Rightarrow> Ok (Known (last ls), last ls \<noteq> 0))))"
  by (cases "version req") (auto simp: process_request_def header_loop_eq Let_def split: list.splits)

section \<open>Outcome of the program\<close>

text \<open>The request line and headers of \<open>raw_012\<close> take 72 bytes, as its blank line shows.\<close>

lemma raw_012_parts:
  "length raw_012 = 116" "take 3 (drop 72 raw_012) = bytes ''abc''" "take 4 (drop 68 raw_012) = [13, 10, 13, 10]"
  "list_all (\<lambda>b. b < 0x80) raw_012"
  by (simp_all add: raw_012_def bytes_def crlf_def)

lemma main_012_outcome:
  assumes first: "parse raw_012 = Ok (Some 72, r)" "version r \<noteq> None"
      "headers r = [\<lparr>hdr_name = ''Host'', hdr_value = bytes ''example''\<rparr>,
         \<lparr>hdr_name = ''Content-Length'', hdr_value = bytes ''5''\<rparr>,
         \<lparr>hdr_name = ''Content-Length'', hdr_value = bytes ''3''\<rparr>]"
    and second: "parse (drop 75 raw_012) = Ok (Some k, r')" "req_method r' = Some ''GET''"
      "req_path r' = Some ''/smuggled''"
  shows "exit_of (main_012 b parse) = Exited 0"
proof -
  have "parse_as_int (bytes ''5'') = Ok 5" "parse_as_int (bytes ''3'') = Ok 3"
    by (simp_all add: parse_as_int_eq bytes_def ascii_plus_def ascii_digit_def)
  then have req: "process_request r = Inr (Ok (Known 3, True))"
    using first(2,3)
    by (auto simp: process_request_def header_loop_eq map_filter_simps header_error_def header_length_def
        is_content_length_def is_transfer_encoding_def eq_ignore_ascii_case_def Let_def)
  have "utf8_valid (bytes ''abc'')" by (rule ascii_utf8) (simp add: bytes_def)
  moreover have "utf8_valid (drop 75 raw_012)"
    using raw_012_parts(4) by (intro ascii_utf8) (auto simp: list_all_iff dest: in_set_dropD)
  moreover have "slice_range raw_012 72 75 = Inr (bytes ''abc'')" "slice_from raw_012 75 = Inr (drop 75 raw_012)"
    using raw_012_parts(1,2) by (simp_all add: slice_range_def slice_from_def)
  ultimately show ?thesis
    using first(1) second req by (simp add: main_012_def prim_add_def utf8_text_def exit_simps Let_def)
qed

end
