(* ===== verification/Codegen.thy ===== *)
theory Codegen
  imports Prelude Decimal
begin

text \<open>
  Programs taken from compile-time code: literal accessors (003), metavariables of a quoting
  macro (065), the parsers and orderings of an intrinsics generator (161, 162, 163), the
  choice of standard streams (108) and comparison wrappers (093). The ordered set of the
  standard library is modelled by its search along a sorted list, and the laws its element
  order must keep are a locale.
\<close>

section \<open>Literal kinds (003)\<close>

datatype lit_kind = Byte | Char

datatype conversion_error_kind = FailedToUnescape | InvalidLiteralKind

definition unescape_byte :: "u8 list \<Rightarrow> (u8, unit) result" where
  "unescape_byte symbol = (case symbol of [] \<Rightarrow> Err () | b # _ \<Rightarrow> Ok b)"

fun byte_character_value_buggy :: "lit_kind \<Rightarrow> u8 list \<Rightarrow> (u8, conversion_error_kind) result" where
  "byte_character_value_buggy Char symbol =
     (case unescape_byte symbol of Ok b \<Rightarrow> Ok b | Err _ \<Rightarrow> Err FailedToUnescape)"
| "byte_character_value_buggy _ symbol = Err InvalidLiteralKind"

definition main_003 :: "unit io" where
  "main_003 =
     (let r1 = byte_character_value_buggy Byte [65]; r2 = byte_character_value_buggy Char [65] in block
        [println [VBool (r1 = Ok 65)],
         println [VBool (r2 = Ok 65)],
         assert_that (r1 = Err InvalidLiteralKind),
         assert_that (r2 = Ok 65)])"

lemma main_003_outcome: "exit_of main_003 = Exited 0"
  by (simp add: main_003_def unescape_byte_def exit_simps)

section \<open>Metavariables (065)\<close>

datatype tok = Punct char | Ident string | Group "tok list"

text \<open>The scanning loop: after a dollar sign it looks at the next token and consumes it when
  that is an identifier; \<open>out\<close> is the vector it appends to.\<close>

fun helper_065 :: "tok list \<Rightarrow> string list \<Rightarrow> string list" where
  "helper_065 [] out = out"
| "helper_065 (Punct c # stream) out =
     (if c = CHR ''$'' then
        (case stream of
           Ident ident # rest \<Rightarrow> helper_065 rest (out @ [ident])
         | _ \<Rightarrow> helper_065 stream out)
      else helper_065 stream out)"
| "helper_065 (Group inner # stream) out = helper_065 stream (helper_065 inner out)"
| "helper_065 (Ident ident # stream) out = helper_065 stream out"

definition collect_meta_vars_buggy :: "tok list \<Rightarrow> string list" where
  "collect_meta_vars_buggy stream = helper_065 stream []"

definition main_065 :: "unit io" where
  "main_065 =
     (let stream = [Group [Punct CHR ''$'', Ident ''x'', Punct CHR ''$'', Punct CHR ''$'', Ident ''var'']];
          meta = collect_meta_vars_buggy stream
      in block
        [assert_that (meta = [''x'', ''var'']),
         println [VList (map VStr meta)]])"

lemma main_065_outcome: "exit_of main_065 = Exited 0"
  by (simp add: main_065_def collect_meta_vars_buggy_def exit_simps)

text \<open>
  The documented reading: two dollar signs are a literal one and introduce nothing, a dollar
  sign before an identifier introduces it.
\<close>

fun meta_vars :: "tok list \<Rightarrow> string list" where
  "meta_vars [] = []"
| "meta_vars (Punct c # stream) =
     (if c = CHR ''$'' then
        (case stream of
           Punct d # rest \<Rightarrow> if d = CHR ''$'' then meta_vars rest else meta_vars stream
         | Ident ident # rest \<Rightarrow> ident # meta_vars rest
         | _ \<Rightarrow> meta_vars stream)
      else meta_vars stream)"
| "meta_vars (Group inner # stream) = meta_vars inner @ meta_vars stream"
| "meta_vars (Ident ident # stream) = meta_vars stream"

text \<open>Whether some dollar sign follows another one directly, at any depth.\<close>

fun escapes :: "tok list \<Rightarrow> bool" where
  "escapes [] \<longleftrightarrow> False"
| "escapes (Punct c # stream) \<longleftrightarrow>
     c = CHR ''$'' \<and> (case stream of Punct d # _ \<Rightarrow> d = CHR ''$'' | _ \<Rightarrow> False) \<or> escapes stream"
| "escapes (Group inner # stream) \<longleftrightarrow> escapes inner \<or> escapes stream"
| "escapes (Ident ident # stream) \<longleftrightarrow> escapes stream"

text \<open>The loop without its accumulator.\<close>

fun scanned :: "tok list \<Rightarrow> string list" where
  "scanned [] = []"
| "scanned (Punct c # stream) =
     (if c = CHR ''$'' then
        (case stream of Ident ident # rest \<Rightarrow> ident # scanned rest | _ \<Rightarrow> scanned stream)
      else scanned stream)"
| "scanned (Group inner # stream) = scanned inner @ scanned stream"
| "scanned (Ident ident # stream) = scanned stream"

lemma helper_065_eq: "helper_065 stream out = out @ scanned stream"
proof (induction stream out rule: helper_065.induct)
  case (2 c stream out)
  show ?case
  proof (cases "c = CHR ''$''")
    case True
    show ?thesis
    proof (cases stream)
      case (Cons t rest)
      show ?thesis
        by (cases t) (use 2(2-4) [OF True Cons] in \<open>simp_all add: True Cons\<close>)
    qed (simp add: True)
  qed (use 2(5) in simp)
qed simp_all

lemma scanned_meta_vars: "\<not> escapes stream \<Longrightarrow> scanned stream = meta_vars stream"
proof (induction stream rule: meta_vars.induct)
  case (2 c stream)
  show ?case
  proof (cases "c = CHR ''$''")
    case True
    show ?thesis
    proof (cases stream)
      case (Cons t rest)
      show ?thesis
        by (cases t) (use 2(3-5) [OF True Cons] 2(7) in \<open>simp_all add: True Cons split: if_splits\<close>)
    qed (simp add: True)
  qed (use 2(6,7) in simp)
qed auto

text \<open>C25. The scanner collects the metavariables of the documented reading from every token
  stream without an escaped dollar sign, at any nesting; an escaped dollar sign before an
  identifier makes it collect one more, and the accumulator never loses or reorders any.\<close>

theorem collected_meta_vars:
  "(if escapes stream then True else collect_meta_vars_buggy stream = meta_vars stream) \<and>
   collect_meta_vars_buggy (Punct CHR ''$'' # Punct CHR ''$'' # Ident ident # stream) =
     ident # collect_meta_vars_buggy stream \<and>
   meta_vars (Punct CHR ''$'' # Punct CHR ''$'' # Ident ident # stream) = meta_vars stream \<and>
   helper_065 stream out = out @ collect_meta_vars_buggy stream"
  by (auto simp: collect_meta_vars_buggy_def helper_065_eq scanned_meta_vars)

section \<open>Standard streams (108)\<close>

datatype stdio = Null | Piped | Inherit

record command =
  stdout :: "stdio option"
  stderr :: "stdio option"

definition spawn_buggy :: "command \<Rightarrow> stdio \<times> stdio" where
  "spawn_buggy c =
     (let default_stdio = Inherit;
          out = (case stdout c of None \<Rightarrow> default_stdio | Some s \<Rightarrow> s);
          err = (case stdout c of None \<Rightarrow> default_stdio | Some s \<Rightarrow> s)
      in (out, err))"

definition main_108 :: "unit io" where
  "main_108 =
     (let c = \<lparr>stdout = Some Null, stderr = Some Piped\<rparr>; (out, err) = spawn_buggy c in block
        [println [VBool (err = Null), VBool (out = Null)],
         assert_that (out = Null),
         assert_that (err = Null),
         println []])"

lemma main_108_outcome: "exit_of main_108 = Exited 0"
  by (simp add: main_108_def spawn_buggy_def exit_simps)

section \<open>Comparison wrappers (093)\<close>

definition vec_all_ge_stub :: i32 where
  "vec_all_ge_stub = 1"

definition vec_any_lt_buggy :: i32 where
  "vec_any_lt_buggy = NOT vec_all_ge_stub"

definition vec_any_lt_fixed :: i32 where
  "vec_any_lt_fixed = (if vec_all_ge_stub = 0 then 1 else 0)"

definition main_093 :: "unit io" where
  "main_093 =
     (let buggy = vec_any_lt_buggy; fixed = vec_any_lt_fixed in block
        [println [],
         println [VInt (sint buggy), VBool (buggy \<noteq> 0)],
         println [VInt (sint fixed), VBool (fixed \<noteq> 0)],
         assert_that (buggy = - 2),
         assert_that (buggy \<noteq> 0),
         assert_that (fixed = 0)])"

lemma main_093_outcome: "exit_of main_093 = Exited 0"
  by (simp add: main_093_def vec_any_lt_buggy_def vec_any_lt_fixed_def vec_all_ge_stub_def exit_simps)

section \<open>Suffix tokens (161)\<close>

datatype suffix_161 = Rot180Lane | Rot180LaneQ

definition from_str_161 :: "string \<Rightarrow> (suffix_161, string) result" where
  "from_str_161 s =
     (if s = ''rot180_lane'' then Ok Rot180LaneQ
      else if s = ''rot180_laneq'' then Ok Rot180LaneQ
      else Err (''unknown '' @ s))"

definition decimal_string :: "nat \<Rightarrow> string" where
  "decimal_string n = map (\<lambda>b. char_of (unat b)) (decimal n)"

fun make_neon_suffix :: "suffix_161 \<Rightarrow> string \<Rightarrow> char \<Rightarrow> u32 \<Rightarrow> string" where
  "make_neon_suffix Rot180Lane prefix_q prefix_char base_size =
     prefix_q @ ''_rot180_lane_'' @ [prefix_char] @ decimal_string (unat base_size)"
| "make_neon_suffix Rot180LaneQ prefix_q prefix_char base_size =
     prefix_q @ ''_rot180_laneq_'' @ [prefix_char] @ decimal_string (unat base_size)"

definition main_161 :: "unit io" where
  "main_161 =
     lift_run (unwrap_result (from_str_161 ''rot180_lane'')) (\<lambda>kind.
       let intrinsic = make_neon_suffix kind ''vcadd'' CHR ''s'' 16;
           expected = ''vcadd_rot180_lane_s16''
       in block
         [println [],
          println [VStr expected],
          println [VStr intrinsic],
          assert_that (intrinsic \<noteq> expected),
          assert_that (intrinsic = ''vcadd_rot180_laneq_s16''),
          println []])"

lemma decimal_16: "decimal_string 16 = ''16''"
  by code_simp

lemma main_161_outcome: "exit_of main_161 = Exited 0"
  by (simp add: main_161_def from_str_161_def decimal_16 exit_simps)

section \<open>Wildcards (163)\<close>

datatype suffix_163 = Rot180Lane_163

text \<open>The error is a text with the \<open>Debug\<close> form of the string in it, which is not rendered here.\<close>

datatype text_163 = Unknown_Suffix string

definition from_str_163 :: "string \<Rightarrow> (suffix_163, text_163) result" where
  "from_str_163 s = (if s = ''rot180_lane'' then Ok Rot180Lane_163 else Err (Unknown_Suffix s))"

datatype wildcard = NEONType "u8 option" "u8 option" "suffix_163 option"

text \<open>\<open>split_once\<close>: the parts before and after the first occurrence.\<close>

definition split_once :: "string \<Rightarrow> char \<Rightarrow> (string \<times> string) option" where
  "split_once s c =
     (case dropWhile (\<lambda>x. x \<noteq> c) s of
        [] \<Rightarrow> None
      | _ # m \<Rightarrow> Some (takeWhile (\<lambda>x. x \<noteq> c) s, m))"

definition wildcard_from_str :: "string \<Rightarrow> (wildcard, string) result run" where
  "wildcard_from_str s =
     (let (hd_part, modifier) =
        (case split_once s CHR ''.'' of Some (h, m) \<Rightarrow> (h, Some m) | None \<Rightarrow> (s, None));
          index = None; tuple = None
      in if hd_part = ''neon_type'' then
           (case modifier of
              Some str_suffix \<Rightarrow>
                (let suffix_kind = from_str_163 str_suffix in
                 bind_run (unwrap_result suffix_kind) (\<lambda>k. Inr (Ok (NEONType index tuple (Some k)))))
            | None \<Rightarrow> Inr (Ok (NEONType index tuple None)))
         else Inr (Err ''invalid wildcard''))"

definition main_163 :: "unit io" where
  "main_163 =
     (case wildcard_from_str ''neon_type.bad'' of
        Inr _ \<Rightarrow> panic_now
      | Inl _ \<Rightarrow> println [])"

lemma split_once_None: "split_once s c = None \<longleftrightarrow> c \<notin> set s"
proof (cases "dropWhile (\<lambda>x. x \<noteq> c) s")
  case Nil
  then show ?thesis
    using dropWhile_eq_Nil_conv [of "\<lambda>x. x \<noteq> c" s] by (auto simp only: split_once_def list.case)
next
  case (Cons x m)
  then have "\<not> (\<forall>x \<in> set s. x \<noteq> c)" using dropWhile_eq_Nil_conv [of "\<lambda>x. x \<noteq> c" s] by simp
  then show ?thesis using Cons by (auto simp: split_once_def)
qed

lemma takeWhile_split: "c \<notin> set h \<Longrightarrow> takeWhile (\<lambda>x. x \<noteq> c) (h @ c # m) = h"
  by (induction h) auto

lemma split_once_Some: "split_once s c = Some (h, m) \<longleftrightarrow> s = h @ c # m \<and> c \<notin> set h"
proof
  assume "split_once s c = Some (h, m)"
  then obtain x where x: "dropWhile (\<lambda>x. x \<noteq> c) s = x # m" "h = takeWhile (\<lambda>x. x \<noteq> c) s"
    by (auto simp: split_once_def split: list.splits)
  then have "x = c" using hd_dropWhile [of "\<lambda>x. x \<noteq> c" s] by simp
  then show "s = h @ c # m \<and> c \<notin> set h"
    using x takeWhile_dropWhile_id [of "\<lambda>x. x \<noteq> c" s] by (auto dest: set_takeWhileD)
next
  assume s: "s = h @ c # m \<and> c \<notin> set h"
  then have "\<And>x. x \<in> set h \<Longrightarrow> x \<noteq> c" by blast
  then have "dropWhile (\<lambda>x. x \<noteq> c) s = c # m" "takeWhile (\<lambda>x. x \<noteq> c) s = h"
    using s by (simp_all add: dropWhile_append2 takeWhile_append2)
  then show "split_once s c = Some (h, m)" by (simp add: split_once_def)
qed

lemma wildcard_valid:
  "wildcard_from_str ''neon_type'' = Inr (Ok (NEONType None None None))"
  "wildcard_from_str ''neon_type.rot180_lane'' = Inr (Ok (NEONType None None (Some Rot180Lane_163)))"
  by (simp_all add: wildcard_from_str_def split_once_def from_str_163_def)

text \<open>C27. Parsing a wildcard panics exactly on \<open>neon_type\<close> with a dot and a modifier other than
  \<open>rot180_lane\<close>; any other string with a different head is an error value, and the two
  valid forms parse.\<close>

theorem wildcard_outcomes:
  "isl (wildcard_from_str s) = (\<exists>m. s = ''neon_type.'' @ m \<and> m \<noteq> ''rot180_lane'') \<and>
   (wildcard_from_str s = Inr (Err ''invalid wildcard'')) =
     (takeWhile (\<lambda>c. c \<noteq> CHR ''.'') s \<noteq> ''neon_type'') \<and>
   wildcard_from_str ''neon_type'' = Inr (Ok (NEONType None None None)) \<and>
   wildcard_from_str ''neon_type.rot180_lane'' = Inr (Ok (NEONType None None (Some Rot180Lane_163)))"
proof (cases "split_once s CHR ''.''")
  case None
  then have "CHR ''.'' \<notin> set s" by (simp add: split_once_None)
  then have "takeWhile (\<lambda>c. c \<noteq> CHR ''.'') s = s" "\<And>m. s \<noteq> ''neon_type.'' @ m"
    by (auto simp: takeWhile_eq_all_conv)
  moreover have "wildcard_from_str s =
      (if s = ''neon_type'' then Inr (Ok (NEONType None None None)) else Inr (Err ''invalid wildcard''))"
    by (simp add: wildcard_from_str_def None)
  ultimately show ?thesis using wildcard_valid by (cases "s = ''neon_type''") (auto simp only: sum.disc if_True if_False)
next
  case (Some p)
  obtain h m where hm: "p = (h, m)" by fastforce
  then have s: "s = h @ CHR ''.'' # m" "CHR ''.'' \<notin> set h" using Some by (simp_all add: split_once_Some)
  have t: "takeWhile (\<lambda>c. c \<noteq> CHR ''.'') s = h"
    unfolding s(1) by (rule takeWhile_split [OF s(2)])
  have eq: "s = ''neon_type.'' @ m' \<longleftrightarrow> h = ''neon_type'' \<and> m = m'" for m'
    using split_once_Some [of s "CHR ''.''" "''neon_type''" m'] Some hm by simp
  have w: "wildcard_from_str s =
      (if h = ''neon_type''
       then (if m = ''rot180_lane'' then Inr (Ok (NEONType None None (Some Rot180Lane_163))) else Inl UnwrapErr)
       else Inr (Err ''invalid wildcard''))"
    by (simp add: wildcard_from_str_def Some hm from_str_163_def)
  show ?thesis
    unfolding t eq w using wildcard_valid
    by (cases "h = ''neon_type''"; cases "m = ''rot180_lane''") simp_all
qed

lemma main_163_outcome: "exit_of main_163 = Exited 0"
  by (simp add: main_163_def wildcard_from_str_def split_once_def from_str_163_def exit_simps)

section \<open>An order that is not an order on values (162)\<close>

datatype input_type = NVariantOp "string option"

datatype ordering = Less | Equal | Greater

fun cmp_162 :: "input_type \<Rightarrow> input_type \<Rightarrow> ordering" where
  "cmp_162 (NVariantOp None) (NVariantOp (Some _)) = Less"
| "cmp_162 (NVariantOp (Some _)) (NVariantOp None) = Greater"
| "cmp_162 (NVariantOp _) (NVariantOp _) = Equal"

text \<open>
  \<open>BTreeSet::insert\<close>: a search by the comparison of the elements, and no change when an
  equal element is found.
\<close>

fun btree_insert :: "('a \<Rightarrow> 'a \<Rightarrow> ordering) \<Rightarrow> 'a \<Rightarrow> 'a list \<Rightarrow> 'a list" where
  "btree_insert cmp x [] = [x]"
| "btree_insert cmp x (y # ys) =
     (case cmp x y of
        Less \<Rightarrow> x # y # ys
      | Equal \<Rightarrow> y # ys
      | Greater \<Rightarrow> y # btree_insert cmp x ys)"

definition main_162 :: "unit io" where
  "main_162 =
     (let a = NVariantOp (Some ''op2''); b = NVariantOp (Some ''op3'');
          eq = (a = b); ord = cmp_162 a b;
          set1 = btree_insert cmp_162 a []; set2 = btree_insert cmp_162 b set1
      in block
        [println [VBool eq],
         println [VBool (ord = Equal)],
         assert_that (\<not> eq),
         assert_that (ord = Equal),
         println [VNat (length set2)],
         assert_that (length set2 = 1),
         println []])"

lemma main_162_outcome: "exit_of main_162 = Exited 0"
  by (simp add: main_162_def exit_simps)

text \<open>
  What the set needs of a comparison: \<open>Equal\<close> is an equivalence that the order respects.
  Nothing here asks \<open>Equal\<close> to be equality; that would be the further promise of an \<open>Ord\<close>
  that agrees with the derived \<open>Eq\<close> of the element type.
\<close>

definition strictly_sorted :: "('a \<Rightarrow> 'a \<Rightarrow> ordering) \<Rightarrow> 'a list \<Rightarrow> bool" where
  "strictly_sorted cmp xs \<longleftrightarrow> sorted_wrt (\<lambda>x y. cmp x y = Less) xs"

locale preorder_cmp =
  fixes cmp :: "'a \<Rightarrow> 'a \<Rightarrow> ordering"
  assumes cmp_refl: "cmp x x = Equal"
    and cmp_flip: "cmp x y = Less \<longleftrightarrow> cmp y x = Greater"
    and cmp_trans: "cmp x y \<noteq> Greater \<Longrightarrow> cmp y z \<noteq> Greater \<Longrightarrow> cmp x z \<noteq> Greater"
begin

lemma cmp_Equal_sym: "cmp x y = Equal \<longleftrightarrow> cmp y x = Equal"
  using cmp_flip [of x y] cmp_flip [of y x] by (cases "cmp x y"; cases "cmp y x") auto

lemma Less_trans: "cmp x y = Less \<Longrightarrow> cmp y z \<noteq> Greater \<Longrightarrow> cmp x z = Less"
proof -
  assume a: "cmp x y = Less" "cmp y z \<noteq> Greater"
  show "cmp x z = Less"
  proof (rule ccontr)
    assume "cmp x z \<noteq> Less"
    then have "cmp z x \<noteq> Greater" using cmp_flip [of x z] by simp
    then have "cmp y x \<noteq> Greater" using cmp_trans a(2) by blast
    then show False using a(1) cmp_flip [of x y] by simp
  qed
qed

lemma insert_members: "set (btree_insert cmp x xs) \<subseteq> insert x (set xs)" "set xs \<subseteq> set (btree_insert cmp x xs)"
  by (induction xs) (auto split: ordering.splits)

lemma insert_sorted: "strictly_sorted cmp xs \<Longrightarrow> strictly_sorted cmp (btree_insert cmp x xs)"
proof (induction xs)
  case (Cons y ys)
  have ys: "strictly_sorted cmp ys" "\<And>z. z \<in> set ys \<Longrightarrow> cmp y z = Less"
    using Cons.prems by (auto simp: strictly_sorted_def)
  show ?case
  proof (cases "cmp x y")
    case Less
    then have "cmp x z = Less" if "z \<in> set ys" for z
      using Less_trans [of x y z] ys(2) [OF that] by simp
    then show ?thesis using Cons.prems Less by (auto simp: strictly_sorted_def)
  next
    case Equal
    then show ?thesis using Cons.prems by simp
  next
    case Greater
    then have "cmp y x = Less" using cmp_flip [of y x] by simp
    then show ?thesis
      using Greater Cons.IH [OF ys(1)] ys(2) insert_members(1) [of x ys]
      by (auto simp: strictly_sorted_def)
  qed
qed (simp add: strictly_sorted_def)

text \<open>The set holds exactly one representative of each class of equal elements.\<close>

lemma insert_represents:
  "\<exists>y \<in> set (btree_insert cmp x xs). cmp x y = Equal"
  by (induction xs) (auto simp: cmp_refl split: ordering.splits)

lemma sorted_no_Equal:
  assumes "strictly_sorted cmp xs" "i < length xs" "j < length xs" "cmp (xs ! i) (xs ! j) = Equal"
  shows "i = j"
proof (rule ccontr)
  assume "i \<noteq> j"
  then consider "i < j" | "j < i" by linarith
  then show False
    using assms cmp_Equal_sym [of "xs ! i" "xs ! j"]
    by cases (auto simp: strictly_sorted_def sorted_wrt_iff_nth_less)
qed

text \<open>A set filled in any order is sorted, holds only inserted elements and represents them all.\<close>

lemma filled_set:
  "strictly_sorted cmp (fold (btree_insert cmp) xs []) \<and> set (fold (btree_insert cmp) xs []) \<subseteq> set xs \<and>
   (\<forall>x \<in> set xs. \<exists>y \<in> set (fold (btree_insert cmp) xs []). cmp x y = Equal)"
proof (induction xs rule: rev_induct)
  case (snoc x xs)
  let ?s = "fold (btree_insert cmp) xs []"
  have "strictly_sorted cmp (btree_insert cmp x ?s)" using snoc.IH insert_sorted by blast
  then show ?case
    using snoc.IH insert_members(1) [of x ?s] insert_members(2) [of ?s x] insert_represents [of x ?s]
    by fastforce
qed (simp add: strictly_sorted_def)

end

lemma cmp_162_iff:
  "cmp_162 (NVariantOp a) (NVariantOp b) =
     (if a = None \<and> b \<noteq> None then Less else if a \<noteq> None \<and> b = None then Greater else Equal)"
  by (cases a; cases b) simp_all

text \<open>\<open>PartialOrd\<close> is defined by the comparison; it makes the operands a preorder.\<close>

instantiation input_type :: preorder
begin

definition less_eq_input_type :: "input_type \<Rightarrow> input_type \<Rightarrow> bool" where
  "x \<le> y \<longleftrightarrow> cmp_162 x y \<noteq> Greater"

definition less_input_type :: "input_type \<Rightarrow> input_type \<Rightarrow> bool" where
  "x < y \<longleftrightarrow> cmp_162 x y = Less"

instance
proof
  show "x < y \<longleftrightarrow> x \<le> y \<and> \<not> y \<le> x" for x y :: input_type
    by (cases x; cases y) (auto simp: less_eq_input_type_def less_input_type_def cmp_162_iff)
  show "x \<le> x" for x :: input_type
    by (cases x) (simp add: less_eq_input_type_def cmp_162_iff)
  show "x \<le> z" if "x \<le> y" "y \<le> z" for x y z :: input_type
    using that by (cases x; cases y; cases z) (auto simp: less_eq_input_type_def cmp_162_iff split: if_splits)
qed

end

interpretation cmp_order: preorder_cmp cmp_162
proof unfold_locales
  show "cmp_162 x x = Equal" for x by (cases x) (simp add: cmp_162_iff)
  show "cmp_162 x y = Less \<longleftrightarrow> cmp_162 y x = Greater" for x y
    by (cases x; cases y) (simp add: cmp_162_iff)
  show "cmp_162 x z \<noteq> Greater" if "cmp_162 x y \<noteq> Greater" "cmp_162 y z \<noteq> Greater" for x y z
    using order_trans [of x y z, unfolded less_eq_input_type_def] that by blast
qed

text \<open>C16. The set keeps its order under insertion and holds a representative of every inserted
  operand, but a representative is all it holds: whatever is inserted, its elements are at
  most one operand without a value and one with a value, since the comparison calls any two
  operands with a value equal.\<close>

theorem operand_set_collapses:
  "length (fold (btree_insert cmp_162) ops []) \<le> 2 \<and>
   set (fold (btree_insert cmp_162) ops []) \<subseteq> set ops \<and>
   list_all (\<lambda>op. list_ex (\<lambda>x. cmp_162 op x = Equal) (fold (btree_insert cmp_162) ops [])) ops"
proof -
  note filled = cmp_order.filled_set [of ops]
  have "length xs \<le> 2" if "sorted_wrt (\<lambda>x y. cmp_162 x y = Less) xs" for xs
  proof (rule ccontr)
    assume "\<not> length xs \<le> 2"
    then obtain x y z zs where "xs = x # y # z # zs"
      by (cases xs; cases "tl xs"; cases "tl (tl xs)") auto
    then have "cmp_162 x y = Less" "cmp_162 y z = Less" using that by auto
    then show False by (cases x; cases y; cases z) (auto simp: cmp_162_iff split: if_splits)
  qed
  then show ?thesis
    using filled by (auto simp: strictly_sorted_def list_all_iff list_ex_iff)
qed

end
