(* ===== verification/Allocation.thy ===== *)
theory Allocation
  imports Prelude
begin

text \<open>
  The choice of the allocation family by size and alignment (061, 102), and layouts built
  from unchecked C arguments (069, 070). Which family owns a block is its origin; the
  interface between \<open>alloc\<close> and \<open>realloc\<close> is a locale whose laws say when the choice of
  \<open>realloc\<close> fits the origin, and a run of reallocations is followed through it.
\<close>

section \<open>The predicates (061)\<close>

definition MIN_ALIGN_061 :: usize where
  "MIN_ALIGN_061 = 16"

definition alloc_uses_aligned :: "usize \<Rightarrow> usize \<Rightarrow> bool" where
  "alloc_uses_aligned size_of align \<longleftrightarrow> \<not> (align \<le> MIN_ALIGN_061 \<and> align \<le> size_of)"

definition realloc_buggy_uses_libc_realloc :: "usize \<Rightarrow> usize \<Rightarrow> usize \<Rightarrow> bool" where
  "realloc_buggy_uses_libc_realloc size_of align new_size \<longleftrightarrow> align \<le> MIN_ALIGN_061 \<and> align \<le> new_size"

definition realloc_fixed_uses_libc_realloc :: "usize \<Rightarrow> usize \<Rightarrow> usize \<Rightarrow> bool" where
  "realloc_fixed_uses_libc_realloc size_of align new_size \<longleftrightarrow> align \<le> MIN_ALIGN_061 \<and> align \<le> size_of"

definition main_061 :: "unit io" where
  "main_061 =
     (let size_of = 1; align = 16; new_size = 16 in block
        [assert_that (alloc_uses_aligned size_of align),
         assert_that (realloc_buggy_uses_libc_realloc size_of align new_size),
         assert_that (\<not> realloc_fixed_uses_libc_realloc size_of align new_size),
         println []])"

lemma main_061_outcome: "exit_of main_061 = Exited 0"
  by (simp add: main_061_def alloc_uses_aligned_def realloc_buggy_uses_libc_realloc_def
      realloc_fixed_uses_libc_realloc_def MIN_ALIGN_061_def exit_simps word_le_nat_alt)

section \<open>The predicates (102)\<close>

definition MIN_ALIGN_102 :: usize where
  "MIN_ALIGN_102 = 8"

definition alloc_uses_memalign :: "usize \<Rightarrow> usize \<Rightarrow> bool" where
  "alloc_uses_memalign align size_of \<longleftrightarrow> \<not> (align \<le> MIN_ALIGN_102 \<and> align \<le> size_of)"

definition realloc_uses_realloc_buggy :: "usize \<Rightarrow> usize \<Rightarrow> bool" where
  "realloc_uses_realloc_buggy align new_size \<longleftrightarrow> align \<le> MIN_ALIGN_102 \<and> align \<le> new_size"

definition realloc_uses_realloc_fixed :: "usize \<Rightarrow> usize \<Rightarrow> usize \<Rightarrow> bool" where
  "realloc_uses_realloc_fixed align size_of new_size \<longleftrightarrow>
     align \<le> MIN_ALIGN_102 \<and> align \<le> size_of \<and> align \<le> new_size"

definition poc_102 :: bool where
  "poc_102 =
     (let align = 8; size_of = 1; new_size = 16 in
      alloc_uses_memalign align size_of \<and> realloc_uses_realloc_buggy align new_size \<and>
      \<not> realloc_uses_realloc_fixed align size_of new_size)"

lemma poc_102_true: "poc_102"
  by (simp add: poc_102_def alloc_uses_memalign_def realloc_uses_realloc_buggy_def
      realloc_uses_realloc_fixed_def MIN_ALIGN_102_def word_le_nat_alt)

section \<open>Runs of reallocations\<close>

text \<open>
  A block remembers the family that produced it, its size and its alignment. \<open>realloc\<close>
  either resizes in place of the family of \<open>malloc\<close>, which is undefined on a block of the
  aligned family, or allocates afresh by the predicate of \<open>alloc\<close>, copies and frees.
\<close>

datatype family = Malloc | Aligned

record block_t =
  origin :: family
  blk_size :: usize
  blk_align :: usize

definition alloc_block :: "(usize \<Rightarrow> usize \<Rightarrow> bool) \<Rightarrow> usize \<Rightarrow> usize \<Rightarrow> block_t" where
  "alloc_block uses_aligned size_of align =
     \<lparr>origin = (if uses_aligned size_of align then Aligned else Malloc),
      blk_size = size_of, blk_align = align\<rparr>"

definition realloc_block ::
  "(usize \<Rightarrow> usize \<Rightarrow> bool) \<Rightarrow> (usize \<Rightarrow> usize \<Rightarrow> usize \<Rightarrow> bool) \<Rightarrow> block_t \<Rightarrow> usize \<Rightarrow> block_t run" where
  "realloc_block uses_aligned uses_realloc blk new_size =
     (if uses_realloc (blk_size blk) (blk_align blk) new_size
      then (if origin blk = Aligned then Inl UndefinedBehavior else Inr (blk\<lparr>blk_size := new_size\<rparr>))
      else Inr (alloc_block uses_aligned new_size (blk_align blk)))"

fun realloc_chain ::
  "(usize \<Rightarrow> usize \<Rightarrow> bool) \<Rightarrow> (usize \<Rightarrow> usize \<Rightarrow> usize \<Rightarrow> bool) \<Rightarrow> block_t \<Rightarrow> usize list \<Rightarrow> block_t run" where
  "realloc_chain uses_aligned uses_realloc blk [] = Inr blk"
| "realloc_chain uses_aligned uses_realloc blk (n # ns) =
     bind_run (realloc_block uses_aligned uses_realloc blk n) (\<lambda>blk.
       realloc_chain uses_aligned uses_realloc blk ns)"

text \<open>
  \<open>sound\<close>: resizing is chosen only for sizes whose blocks \<open>alloc\<close> takes from \<open>malloc\<close>.
  The stronger contract \<open>closed\<close> also asks it of the new size, so that the predicate of
  \<open>alloc\<close> on the current layout tells the origin all along a run.
\<close>

locale realloc_choice =
  fixes uses_aligned :: "usize \<Rightarrow> usize \<Rightarrow> bool"
    and uses_realloc :: "usize \<Rightarrow> usize \<Rightarrow> usize \<Rightarrow> bool"
  assumes sound: "uses_realloc s a n \<Longrightarrow> \<not> uses_aligned s a"
begin

lemma first_realloc:
  "\<not> isl (realloc_block uses_aligned uses_realloc (alloc_block uses_aligned s a) n)"
  using sound [of s a n] by (simp add: realloc_block_def alloc_block_def)

end

locale realloc_discipline = realloc_choice +
  assumes closed: "uses_realloc s a n \<Longrightarrow> \<not> uses_aligned n a"
begin

lemma realloc_origin:
  assumes "blk = alloc_block uses_aligned s a"
  shows "realloc_block uses_aligned uses_realloc blk n = Inr (alloc_block uses_aligned n a)"
  using sound [of s a n] closed [of s a n] by (simp add: assms realloc_block_def alloc_block_def)

lemma realloc_run:
  "realloc_chain uses_aligned uses_realloc (alloc_block uses_aligned s a) ns =
     Inr (alloc_block uses_aligned (last (s # ns)) a)"
proof (induction ns arbitrary: s)
  case (Cons n ns)
  then show ?case by (simp add: realloc_origin [OF refl])
qed simp

end

interpretation fixed_061: realloc_choice alloc_uses_aligned realloc_fixed_uses_libc_realloc
  by unfold_locales (simp add: alloc_uses_aligned_def realloc_fixed_uses_libc_realloc_def)

interpretation fixed_102: realloc_discipline "\<lambda>s a. alloc_uses_memalign a s"
  "\<lambda>s a n. realloc_uses_realloc_fixed a s n"
  by unfold_locales (simp_all add: alloc_uses_memalign_def realloc_uses_realloc_fixed_def)

text \<open>C33. With the fixed predicate of 102 a run of reallocations of any length and in any sizes
  never hands a block of the aligned family to \<open>realloc\<close>, and ends in the block that
  allocating the last size afresh would give; with the buggy one a reallocation is wrong
  exactly when the alignment exceeds the old size but not the new one nor the minimum.\<close>

theorem realloc_runs_102:
  "realloc_chain (\<lambda>s a. alloc_uses_memalign a s) (\<lambda>s a n. realloc_uses_realloc_fixed a s n)
     (alloc_block (\<lambda>s a. alloc_uses_memalign a s) s a) ns =
     Inr (alloc_block (\<lambda>s a. alloc_uses_memalign a s) (last (s # ns)) a) \<and>
   isl (realloc_block (\<lambda>s a. alloc_uses_memalign a s) (\<lambda>s a n. realloc_uses_realloc_buggy a n)
     (alloc_block (\<lambda>s a. alloc_uses_memalign a s) s a) n) =
     (a \<le> MIN_ALIGN_102 \<and> s < a \<and> a \<le> n)"
  using fixed_102.realloc_run [of s a ns]
  by (auto simp: realloc_block_def alloc_block_def alloc_uses_memalign_def realloc_uses_realloc_buggy_def)

text \<open>The fixed predicate of 061 is safe for the first reallocation of every block, but it
  is not a discipline: after shrinking below the alignment the predicate of \<open>alloc\<close> no
  longer tells the origin, and a block of \<open>malloc\<close> is left in a layout that \<open>alloc\<close> serves
  from the aligned family. The buggy predicate is wrong already on the first reallocation,
  exactly when the alignment exceeds the old size but not the new one nor the minimum.\<close>

theorem realloc_choice_061:
  "\<not> isl (realloc_block alloc_uses_aligned realloc_fixed_uses_libc_realloc
        (alloc_block alloc_uses_aligned s a) n) \<and>
   (realloc_block alloc_uses_aligned realloc_fixed_uses_libc_realloc (alloc_block alloc_uses_aligned s a) n
      = Inr (alloc_block alloc_uses_aligned n a)) = (\<not> (a \<le> MIN_ALIGN_061 \<and> a \<le> s \<and> n < a)) \<and>
   isl (realloc_block alloc_uses_aligned realloc_buggy_uses_libc_realloc
        (alloc_block alloc_uses_aligned s a) n) = (a \<le> MIN_ALIGN_061 \<and> s < a \<and> a \<le> n)"
  using fixed_061.first_realloc [of s a n]
  by (auto simp: realloc_block_def alloc_block_def alloc_uses_aligned_def
      realloc_fixed_uses_libc_realloc_def realloc_buggy_uses_libc_realloc_def)

section \<open>Unchecked layouts (069, 070)\<close>

record layout =
  lay_size :: usize
  lay_align :: usize

text \<open>
  The precondition of \<open>from_size_align_unchecked\<close>: the alignment is a power of two, and the
  size rounded up to it does not exceed \<open>isize::MAX\<close>. With debug assertions a violation
  aborts the process, it does not unwind; without them the layout is built all the same.
\<close>

definition layout_ok :: "usize \<Rightarrow> usize \<Rightarrow> bool" where
  "layout_ok size_of align \<longleftrightarrow>
     align \<noteq> 0 \<and> align AND (align - 1) = 0 \<and> unat size_of \<le> 2 ^ 63 - unat align"

datatype 'a checked_call = Aborts | Returns 'a

definition from_size_align_unchecked :: "build \<Rightarrow> usize \<Rightarrow> usize \<Rightarrow> layout checked_call" where
  "from_size_align_unchecked b size_of align =
     (if debug_assertions b \<and> \<not> layout_ok size_of align then Aborts
      else Returns \<lparr>lay_size = size_of, lay_align = align\<rparr>)"

definition buggy_c_alloc :: "build \<Rightarrow> usize \<Rightarrow> usize \<Rightarrow> layout checked_call" where
  "buggy_c_alloc b size_of align = from_size_align_unchecked b size_of align"

definition buggy_c_dealloc_layout :: "build \<Rightarrow> usize \<Rightarrow> usize \<Rightarrow> layout checked_call" where
  "buggy_c_dealloc_layout b size_of align = from_size_align_unchecked b size_of align"

text \<open>
  \<open>main\<close> of both programs, with the call it makes: the branch that prints the abort is
  reached only by unwinding, which the abort does not do.
\<close>

definition layout_main :: "layout checked_call \<Rightarrow> unit io checked_call" where
  "layout_main call =
     (case call of
        Aborts \<Rightarrow> Aborts
      | Returns bad \<Rightarrow> Returns (println [VNat (unat (lay_align bad)), VNat (unat (lay_size bad))]))"

definition main_069 :: "build \<Rightarrow> unit io checked_call" where
  "main_069 b = layout_main (buggy_c_alloc b 8 3)"

definition main_070 :: "build \<Rightarrow> unit io checked_call" where
  "main_070 b = layout_main (buggy_c_dealloc_layout b 16 0)"

lemma layout_mains_abort:
  "(main_069 b = Aborts) = debug_assertions b" "(main_070 b = Aborts) = debug_assertions b"
  by (simp_all add: main_069_def main_070_def layout_main_def buggy_c_alloc_def
      buggy_c_dealloc_layout_def from_size_align_unchecked_def layout_ok_def)

end
