(* ===== verification/Simd_Features.thy ===== *)
theory Simd_Features
  imports Prelude
begin

text \<open>
  The feature detection that enables SIMD extensions by a raw register field (063), over
  arbitrary register contents. The shifts and subtractions of the field extraction are
  modelled with their panics; the specification reads a field as a digit of the register.
\<close>

section \<open>The program\<close>

definition bits_shift :: "build \<Rightarrow> u64 \<Rightarrow> u32 \<Rightarrow> u32 \<Rightarrow> u64 run" where
  "bits_shift b reg hi lo =
     bind_run (prim_sub b hi lo) (\<lambda>w.
     bind_run (prim_add b w 1) (\<lambda>width.
     bind_run (prim_shl b 1 width) (\<lambda>m.
     bind_run (prim_sub b m 1) (\<lambda>bits.
     bind_run (prim_shr b reg lo) (\<lambda>r. Inr (r AND bits))))))"

record features =
  asimd :: bool
  aes :: bool
  sha2 :: bool
  rdm :: bool
  dotprod :: bool
  sve :: bool

definition at_least :: "u64 \<Rightarrow> u64 run \<Rightarrow> bool run" where
  "at_least n r = bind_run r (\<lambda>v. Inr (n \<le> v))"

definition parse_buggy :: "build \<Rightarrow> u64 \<Rightarrow> u64 \<Rightarrow> features run" where
  "parse_buggy b aa64pfr0 aa64isar0 =
     bind_run (bits_shift b aa64pfr0 19 16) (\<lambda>v. let fp = v < 0xF in
     bind_run (at_least 1 (bits_shift b aa64pfr0 19 16)) (\<lambda>fphp.
     bind_run (bits_shift b aa64pfr0 23 20) (\<lambda>v. let asimd_field = v < 0xF in
     bind_run (at_least 1 (bits_shift b aa64pfr0 23 20)) (\<lambda>asimdhp.
     bind_run (and_then asimd_field (at_least 2 (bits_shift b aa64isar0 7 4))) (\<lambda>aes_bit.
     bind_run (at_least 1 (bits_shift b aa64isar0 11 8)) (\<lambda>sha1_bit.
     bind_run (at_least 1 (bits_shift b aa64isar0 15 12)) (\<lambda>sha2_bit.
     bind_run (and_then asimd_field (at_least 1 (bits_shift b aa64isar0 31 28))) (\<lambda>rdm_bit.
     bind_run (and_then asimd_field (at_least 1 (bits_shift b aa64isar0 47 44))) (\<lambda>dotprod_bit.
     bind_run (and_then asimd_field (at_least 1 (bits_shift b aa64pfr0 35 32))) (\<lambda>sve_bit.
     Inr \<lparr>asimd = fp \<and> asimd_field \<and> (\<not> fphp \<or> asimdhp), aes = aes_bit,
          sha2 = asimd_field \<and> sha1_bit \<and> sha2_bit, rdm = rdm_bit, dotprod = dotprod_bit,
          sve = sve_bit\<rparr>))))))))))"

definition aa64pfr0_063 :: u64 where
  "aa64pfr0_063 = (push_bit 16 0xF OR push_bit 20 0x1) OR push_bit 32 0x1"

definition aa64isar0_063 :: u64 where
  "aa64isar0_063 =
     (((push_bit 4 0x2 OR push_bit 8 0x1) OR push_bit 12 0x1) OR push_bit 28 0x1) OR push_bit 44 0x1"

definition main_063 :: "build \<Rightarrow> unit io" where
  "main_063 b =
     lift_run (parse_buggy b aa64pfr0_063 aa64isar0_063) (\<lambda>f. block
       [assert_that (\<not> asimd f),
        assert_that (aes f \<and> sha2 f \<and> rdm f \<and> dotprod f \<and> sve f),
        println (map VBool [asimd f, aes f, sha2 f, rdm f, dotprod f, sve f])])"

section \<open>Register fields\<close>

text \<open>The four-bit field of a register that starts at bit \<open>lo\<close>.\<close>

definition field :: "u64 \<Rightarrow> nat \<Rightarrow> nat" where
  "field reg lo = unat reg div 2 ^ lo mod 16"

lemma bits_shift_eq:
  assumes "unat hi = unat lo + 3" "unat lo + 4 \<le> 64"
  shows "\<exists>v. bits_shift b reg hi lo = Inr v \<and> unat v = field reg (unat lo)"
proof -
  obtain w where w: "prim_sub b hi lo = Inr w" "unat w = 3"
    by (rule prim_natE(2) [of hi "unat lo + 3" lo "unat lo" b, OF assms(1) refl]) simp_all
  obtain width where width: "prim_add b w 1 = Inr width" "unat width = 4"
    by (rule prim_natE(1) [OF w(2), of 1 1 b]) simp_all
  have shl: "prim_shl b 1 width = Inr (16 :: u64)"
    by (simp add: prim_shl_def width push_bit_eq_mult)
  have sub: "prim_sub b 16 1 = Inr (15 :: u64)" by (simp add: prim_sub_def)
  have shr: "prim_shr b reg lo = Inr (drop_bit (unat lo) reg)"
    using assms(2) by (simp add: prim_shr_def)
  have m: "(15 :: u64) = mask 4" by (simp add: mask_eq_exp_minus_1)
  have "unat (drop_bit (unat lo) reg AND 15) = field reg (unat lo)"
    unfolding m unat_and_mask unat_drop_bit_eq field_def by (simp add: drop_bit_eq_div)
  then show ?thesis
    by (simp add: bits_shift_def w width shl sub shr)
qed

lemma at_least_field:
  assumes "unat hi = unat lo + 3" "unat lo + 4 \<le> 64"
  shows "at_least n (bits_shift b reg hi lo) = Inr (unat n \<le> field reg (unat lo))"
  using bits_shift_eq [OF assms, of b reg] by (auto simp: at_least_def word_le_nat_alt)

lemma parse_buggy_eq:
  "\<exists>f. parse_buggy b pfr isar = Inr f \<and>
     asimd f = (field pfr 16 \<noteq> 15 \<and> field pfr 20 \<noteq> 15 \<and> (field pfr 16 = 0 \<or> field pfr 20 \<noteq> 0)) \<and>
     aes f = (field pfr 20 \<noteq> 15 \<and> 2 \<le> field isar 4) \<and>
     sha2 f = (field pfr 20 \<noteq> 15 \<and> 1 \<le> field isar 8 \<and> 1 \<le> field isar 12) \<and>
     rdm f = (field pfr 20 \<noteq> 15 \<and> 1 \<le> field isar 28) \<and>
     dotprod f = (field pfr 20 \<noteq> 15 \<and> 1 \<le> field isar 44) \<and>
     sve f = (field pfr 20 \<noteq> 15 \<and> 1 \<le> field pfr 32)"
proof -
  have small: "field reg lo < 16" for reg lo by (simp add: field_def)
  then have ne: "field reg lo < 15 \<longleftrightarrow> field reg lo \<noteq> 15" for reg lo
    using small [of reg lo] by linarith
  obtain v1 where v1: "bits_shift b pfr 19 16 = Inr v1" "unat v1 = field pfr 16"
    using bits_shift_eq [of 19 16 b pfr] by auto
  obtain v2 where v2: "bits_shift b pfr 23 20 = Inr v2" "unat v2 = field pfr 20"
    using bits_shift_eq [of 23 20 b pfr] by auto
  have a: "at_least 1 (bits_shift b pfr 19 16) = Inr (1 \<le> field pfr 16)"
    "at_least 1 (bits_shift b pfr 23 20) = Inr (1 \<le> field pfr 20)"
    "at_least 2 (bits_shift b isar 7 4) = Inr (2 \<le> field isar 4)"
    "at_least 1 (bits_shift b isar 11 8) = Inr (1 \<le> field isar 8)"
    "at_least 1 (bits_shift b isar 15 12) = Inr (1 \<le> field isar 12)"
    "at_least 1 (bits_shift b isar 31 28) = Inr (1 \<le> field isar 28)"
    "at_least 1 (bits_shift b isar 47 44) = Inr (1 \<le> field isar 44)"
    "at_least 1 (bits_shift b pfr 35 32) = Inr (1 \<le> field pfr 32)"
    using at_least_field [of 19 16 1 b pfr] at_least_field [of 23 20 1 b pfr]
      at_least_field [of 7 4 2 b isar] at_least_field [of 11 8 1 b isar]
      at_least_field [of 15 12 1 b isar] at_least_field [of 31 28 1 b isar]
      at_least_field [of 47 44 1 b isar] at_least_field [of 35 32 1 b pfr] by simp_all
  have v: "(v1 < 15) = (field pfr 16 \<noteq> 15)" "(v2 < 15) = (field pfr 20 \<noteq> 15)"
    using v1(2) v2(2) ne by (simp_all add: word_less_nat_alt)
  show ?thesis
    unfolding parse_buggy_def a
    by (auto simp: v1(1) v2(1) v and_then_def Let_def Suc_le_eq)
qed

text \<open>C30. Detection never panics and computes each flag from the register digits; so an
  extension is reported without its base, ASIMD, exactly when the ASIMD field is not 15 and
  either floating point is absent or half precision is announced for it but not for ASIMD.\<close>

theorem parse_buggy_spec:
  "\<exists>f. parse_buggy b pfr isar = Inr f \<and>
     asimd f = (field pfr 16 \<noteq> 15 \<and> field pfr 20 \<noteq> 15 \<and> \<not> (field pfr 16 \<noteq> 0 \<and> field pfr 20 = 0)) \<and>
     aes f = (field pfr 20 \<noteq> 15 \<and> 2 \<le> field isar 4) \<and>
     sha2 f = (field pfr 20 \<noteq> 15 \<and> 1 \<le> field isar 8 \<and> 1 \<le> field isar 12) \<and>
     rdm f = (field pfr 20 \<noteq> 15 \<and> 1 \<le> field isar 28) \<and>
     dotprod f = (field pfr 20 \<noteq> 15 \<and> 1 \<le> field isar 44) \<and>
     sve f = (field pfr 20 \<noteq> 15 \<and> 1 \<le> field pfr 32)"
  using parse_buggy_eq [of b pfr isar] by simp

lemma main_063_outcome: "exit_of (main_063 b) = Exited 0"
proof -
  have r: "aa64pfr0_063 = 0x1001F0000" "aa64isar0_063 = 0x100010001120"
    by (simp_all add: aa64pfr0_063_def aa64isar0_063_def push_bit_eq_mult)
  have fields: "field aa64pfr0_063 16 = 15" "field aa64pfr0_063 20 = 1" "field aa64pfr0_063 32 = 1"
    "field aa64isar0_063 4 = 2" "field aa64isar0_063 8 = 1" "field aa64isar0_063 12 = 1"
    "field aa64isar0_063 28 = 1" "field aa64isar0_063 44 = 1"
    unfolding r field_def by simp_all
  show ?thesis
    using parse_buggy_eq [of b aa64pfr0_063 aa64isar0_063]
    by (auto simp: main_063_def fields exit_simps)
qed

end
