(* ===== verification/Directories.thy ===== *)
theory Directories
  imports Prelude
begin

text \<open>
  Recursive removal of a directory tree with and without the filter for the dot entries
  (020). Reading a directory is an argument of the routines, so the theorems hold for every
  file system; the mock of the program is one instance. A path is the byte list of the
  string, joined as on the host.
\<close>

section \<open>The program\<close>

record dir_entry =
  ent_name :: "u8 list"
  is_dir :: bool

definition slash :: u8 where
  "slash = 47"

text \<open>\<open>Path::join\<close>: an absolute argument replaces the path, another one is appended after a
  separator unless the path is empty or ends in one.\<close>

definition path_join :: "u8 list \<Rightarrow> u8 list \<Rightarrow> u8 list" where
  "path_join root s =
     (if s \<noteq> [] \<and> hd s = slash then s
      else if root = [] \<or> last root = slash then root @ s else root @ [slash] @ s)"

definition entry_path :: "dir_entry \<Rightarrow> u8 list \<Rightarrow> u8 list run" where
  "entry_path e root =
     (if utf8_valid (ent_name e) then Inr (path_join root (ent_name e)) else Inl UnwrapErr)"

definition STACK_EXHAUSTED :: "u8 list" where
  "STACK_EXHAUSTED = map of_char ''STACK-EXHAUSTED''"

definition dot :: "u8 list" where
  "dot = [46]"

definition dotdot :: "u8 list" where
  "dotdot = [46, 46]"

text \<open>The depth is a \<open>u32\<close> that the test keeps at most 5, so its increment is exact.\<close>

function buggy_remove_dir_all ::
  "(u8 list \<Rightarrow> dir_entry list) \<Rightarrow> u8 list \<Rightarrow> nat \<Rightarrow> u8 list list \<Rightarrow> u8 list list run" where
  "buggy_remove_dir_all readdir path depth log =
     (if 4 < depth then Inr (log @ [STACK_EXHAUSTED])
      else fold_run (\<lambda>child log.
             if is_dir child then
               bind_run (entry_path child path) (\<lambda>child_path.
                 buggy_remove_dir_all readdir child_path (depth + 1) (log @ [child_path]))
             else Inr log) (readdir path) log)"
  by pat_completeness auto
termination
  by (relation "measure (\<lambda>(readdir, path, depth, log). 5 - depth)") auto

function fixed_remove_dir_all ::
  "(u8 list \<Rightarrow> dir_entry list) \<Rightarrow> u8 list \<Rightarrow> nat \<Rightarrow> u8 list list \<Rightarrow> u8 list list run" where
  "fixed_remove_dir_all readdir path depth log =
     (if 4 < depth then Inr (log @ [STACK_EXHAUSTED])
      else fold_run (\<lambda>child log.
             if ent_name child = dot \<or> ent_name child = dotdot then Inr log
             else if is_dir child then
               bind_run (entry_path child path) (\<lambda>child_path.
                 fixed_remove_dir_all readdir child_path (depth + 1) (log @ [child_path]))
             else Inr log) (readdir path) log)"
  by pat_completeness auto
termination
  by (relation "measure (\<lambda>(readdir, path, depth, log). 5 - depth)") auto

declare buggy_remove_dir_all.simps [simp del] fixed_remove_dir_all.simps [simp del]

definition mock_readdir :: "u8 list \<Rightarrow> dir_entry list" where
  "mock_readdir p = [\<lparr>ent_name = dot, is_dir = True\<rparr>, \<lparr>ent_name = dotdot, is_dir = True\<rparr>]"

definition root_020 :: "u8 list" where
  "root_020 = [67, 58, 92] @ map of_char ''target''"

text \<open>The lossy text of a path is the path when it is valid.\<close>

definition main_020 :: "unit io" where
  "main_020 =
     lift_run (buggy_remove_dir_all mock_readdir root_020 0 []) (\<lambda>buggy_log. block
       [println [VNat (length buggy_log)],
        block (map (\<lambda>p. println [VList (map (VNat \<circ> unat) p)]) buggy_log),
        assert_that (list_ex (\<lambda>p. contains p dotdot) buggy_log),
        assert_that (list_ex (\<lambda>p. contains p STACK_EXHAUSTED) buggy_log),
        lift_run (fixed_remove_dir_all mock_readdir root_020 0 []) (\<lambda>fixed_log. block
          [println [VNat (length fixed_log)],
           assert_that (length fixed_log = 0),
           println []])])"

section \<open>The filter\<close>

definition plain_entry :: "dir_entry \<Rightarrow> bool" where
  "plain_entry e \<longleftrightarrow> ent_name e \<noteq> dot \<and> ent_name e \<noteq> dotdot"

lemma fold_run_filter:
  "fold_run (\<lambda>x s. if P x then f x s else Inr s) xs s = fold_run f (filter P xs) s"
  by (induction xs arbitrary: s) (auto intro: bind_run_cong)

lemma fixed_eq:
  "fixed_remove_dir_all readdir path depth log =
     buggy_remove_dir_all (\<lambda>p. filter plain_entry (readdir p)) path depth log"
proof (induction readdir path depth log rule: fixed_remove_dir_all.induct)
  case (1 readdir path depth log)
  have body: "(if ent_name child = dot \<or> ent_name child = dotdot then Inr log
      else if is_dir child then
        bind_run (entry_path child path) (\<lambda>child_path.
          fixed_remove_dir_all readdir child_path (depth + 1) (log @ [child_path]))
      else Inr log) =
    (if plain_entry child then
       (if is_dir child then
          bind_run (entry_path child path) (\<lambda>child_path.
            buggy_remove_dir_all (\<lambda>p. filter plain_entry (readdir p)) child_path (depth + 1) (log @ [child_path]))
        else Inr log)
     else Inr log)" if "\<not> 4 < depth" "child \<in> set (readdir path)" for child log
  proof -
    have dots: "ent_name child = dot \<or> ent_name child = dotdot \<longleftrightarrow> \<not> plain_entry child"
      by (auto simp: plain_entry_def)
    show ?thesis
      unfolding dots using 1 [OF that, unfolded dots]
      by (cases "plain_entry child"; cases "is_dir child"; cases "entry_path child path") simp_all
  qed
  show ?case
  proof (cases "4 < depth")
    case True
    then show ?thesis by (simp add: fixed_remove_dir_all.simps buggy_remove_dir_all.simps)
  next
    case False
    show ?thesis
      unfolding fixed_remove_dir_all.simps [of readdir path depth log]
        buggy_remove_dir_all.simps [of _ path depth log] fold_run_filter [symmetric]
      using False body by (simp cong: fold_run_cong)
  qed
qed

text \<open>A path below a root: joined from the root by one or more entry names.\<close>

inductive below :: "(u8 list \<Rightarrow> bool) \<Rightarrow> u8 list \<Rightarrow> u8 list \<Rightarrow> bool"
  for ok :: "u8 list \<Rightarrow> bool" where
  step: "p = root \<or> below ok root p \<Longrightarrow> ok name \<Longrightarrow> below ok root (path_join p name)"

lemma fold_run_invariant:
  assumes "fold_run f xs s = Inr t" "P s"
    and "\<And>x s t. x \<in> set xs \<Longrightarrow> P s \<Longrightarrow> f x s = Inr t \<Longrightarrow> P t"
  shows "P t"
  using assms
proof (induction xs arbitrary: s)
  case (Cons x xs)
  obtain u where u: "f x s = Inr u" "fold_run f xs u = Inr t"
    using Cons.prems(1) by (auto simp: bind_run_Inr_iff)
  show ?case
    using Cons.IH [OF u(2)] Cons.prems(2,3) u(1) by auto
qed simp

lemma visited_below:
  assumes "buggy_remove_dir_all readdir path depth log = Inr log'"
    and "path = root \<or> below ok root path"
    and "\<And>p e. e \<in> set (readdir p) \<Longrightarrow> ok (ent_name e)"
    and "list_all (\<lambda>p. p = STACK_EXHAUSTED \<or> below ok root p) log"
  shows "list_all (\<lambda>p. p = STACK_EXHAUSTED \<or> below ok root p) log'"
  using assms
proof (induction readdir path depth log arbitrary: log' rule: buggy_remove_dir_all.induct)
  case (1 readdir path depth log)
  show ?case
  proof (cases "4 < depth")
    case True
    then show ?thesis using 1(2,5) by (auto simp: buggy_remove_dir_all.simps)
  next
    case False
    let ?ok = "\<lambda>log. list_all (\<lambda>p. p = STACK_EXHAUSTED \<or> below ok root p) log"
    have fold: "fold_run (\<lambda>child log.
             if is_dir child then
               bind_run (entry_path child path) (\<lambda>child_path.
                 buggy_remove_dir_all readdir child_path (depth + 1) (log @ [child_path]))
             else Inr log) (readdir path) log = Inr log'"
      using 1(2) False by (simp add: buggy_remove_dir_all.simps [of readdir path depth log])
    show ?thesis
    proof (rule fold_run_invariant [OF fold])
      show "?ok log" by (rule 1(5))
      fix child l t
      assume child: "child \<in> set (readdir path)" and l: "?ok l"
        and step: "(if is_dir child then
               bind_run (entry_path child path) (\<lambda>child_path.
                 buggy_remove_dir_all readdir child_path (depth + 1) (l @ [child_path]))
             else Inr l) = Inr t"
      show "?ok t"
      proof (cases "is_dir child")
        case True
        then obtain cp where cp: "entry_path child path = Inr cp"
            "buggy_remove_dir_all readdir cp (depth + 1) (l @ [cp]) = Inr t"
          using step by (auto simp: bind_run_Inr_iff)
        then have "cp = path_join path (ent_name child)"
          by (simp add: entry_path_def split: if_splits)
        then have b: "below ok root cp"
          using 1(3,4) child by (auto intro: below.step)
        show ?thesis
          using 1(1) [OF False child True cp(1) cp(2)] b 1(4) l by simp
      qed (use step l in simp)
    qed
  qed
qed

text \<open>C18. The fixed removal is the buggy one on a file system without dot entries; so, on every
  file system and to the depth bound, each path it visits is joined from its root by names
  none of which is a dot entry.\<close>

theorem fixed_removal_stays_below:
  assumes "fixed_remove_dir_all readdir root 0 [] = Inr log"
  shows "buggy_remove_dir_all (\<lambda>p. filter plain_entry (readdir p)) root 0 [] = Inr log \<and>
    list_all (\<lambda>p. p = STACK_EXHAUSTED \<or> below (\<lambda>n. n \<noteq> dot \<and> n \<noteq> dotdot) root p) log"
proof -
  have r: "buggy_remove_dir_all (\<lambda>p. filter plain_entry (readdir p)) root 0 [] = Inr log"
    using assms by (simp add: fixed_eq)
  have "list_all (\<lambda>p. p = STACK_EXHAUSTED \<or> below (\<lambda>n. n \<noteq> dot \<and> n \<noteq> dotdot) root p) log"
    by (rule visited_below [OF r]) (auto simp: plain_entry_def)
  with r show ?thesis by blast
qed

lemma mock_fixed: "fixed_remove_dir_all mock_readdir root 0 [] = Inr []"
  by (simp add: fixed_remove_dir_all.simps mock_readdir_def)

theorem fixed_removal_stays_below_witness:
  "\<exists>log. fixed_remove_dir_all (\<lambda>p. if p = root_020 then [\<lparr>ent_name = dot, is_dir = True\<rparr>, \<lparr>ent_name = [97], is_dir = True\<rparr>] else [])
      root_020 0 [] = Inr log \<and> length log = 1 \<and>
    list_all (\<lambda>p. p = STACK_EXHAUSTED \<or> below (\<lambda>n. n \<noteq> dot \<and> n \<noteq> dotdot) root_020 p) log"
proof -
  let ?rd = "\<lambda>p. if p = root_020 then [\<lparr>ent_name = dot, is_dir = True\<rparr>, \<lparr>ent_name = [97], is_dir = True\<rparr>] else []"
  have r: "fixed_remove_dir_all ?rd root_020 0 [] = Inr [path_join root_020 [97]]"
    by (simp add: fixed_remove_dir_all.simps dot_def dotdot_def entry_path_def path_join_def slash_def root_020_def)
  show ?thesis using fixed_removal_stays_below [OF r] r by simp
qed

section \<open>The mock\<close>

text \<open>What the buggy removal visits on the mock: both dot entries at every level, and the marker
  at the bound.\<close>

fun mock_visits :: "u8 list \<Rightarrow> nat \<Rightarrow> u8 list list" where
  "mock_visits p 0 = [STACK_EXHAUSTED]"
| "mock_visits p (Suc n) =
     path_join p dot # mock_visits (path_join p dot) n @
     path_join p dotdot # mock_visits (path_join p dotdot) n"

lemma mock_buggy:
  "d + n = 5 \<Longrightarrow> buggy_remove_dir_all mock_readdir p d log = Inr (log @ mock_visits p n)"
proof (induction n arbitrary: d p log)
  case (Suc n)
  then have "\<not> 4 < d" by simp
  moreover have "utf8_valid dot" "utf8_valid dotdot" by (simp_all add: dot_def dotdot_def)
  ultimately show ?case
    using Suc.IH [of "Suc d"] Suc.prems
    unfolding buggy_remove_dir_all.simps [of mock_readdir p d log] mock_readdir_def [of p]
    by (simp add: entry_path_def)
qed (simp add: buggy_remove_dir_all.simps)

lemma mock_visits_length: "length (mock_visits p n) + 2 = 3 * 2 ^ n"
proof (induction n arbitrary: p)
  case (Suc n)
  show ?case using Suc [of "path_join p dot"] Suc [of "path_join p dotdot"] by simp
qed simp

lemma marker_visited: "STACK_EXHAUSTED \<in> set (mock_visits p n)"
  by (induction n arbitrary: p) auto

lemma main_020_outcome: "exit_of main_020 = Exited 0"
proof -
  let ?log = "mock_visits root_020 5"
  have log: "buggy_remove_dir_all mock_readdir root_020 0 [] = Inr ?log"
    using mock_buggy [of 0 5] by simp
  have "path_join root_020 dotdot \<in> set ?log" by (simp add: numeral_eq_Suc)
  moreover have "path_join root_020 dotdot = (root_020 @ [slash]) @ dotdot"
    by (simp add: path_join_def root_020_def slash_def dotdot_def)
  moreover have "contains ((root_020 @ [slash]) @ dotdot) dotdot"
    by (simp only: contains_append)
  ultimately have dd: "list_ex (\<lambda>p. contains p dotdot) ?log" by (auto simp: list_ex_iff)
  have "contains STACK_EXHAUSTED STACK_EXHAUSTED" using contains_append [of "[]"] by simp
  then have se: "list_ex (\<lambda>p. contains p STACK_EXHAUSTED) ?log"
    using marker_visited by (auto simp: list_ex_iff)
  have prints: "block (map (\<lambda>p. println (f p)) xs) = (map f xs, Inr ())" for f and xs :: "u8 list list"
    by (induction xs) (simp_all add: println_def)
  show ?thesis
    using log dd se mock_fixed [of root_020] by (simp add: main_020_def prints exit_simps exit_of_block_Inr del: block.simps(3))
qed

end
