(* ===== verification/Handles.thy ===== *)
theory Handles
  imports Prelude
begin

text \<open>
  Ledgers of firmware file handles: which handles were opened and which were closed by a
  destructor, for the volume handle of \<open>from_path\<close> (030), the existence check (031) and the
  created directory (032) of \<open>mkdir\<close>. The thread-local cells are the fields of a record, which
  also keeps the lines the routines of 030 print, in order.
\<close>

section \<open>Opening a path (030)\<close>

record ledger_030 =
  OPENED :: "u32 list"
  CLOSED :: "u32 list"
  NEXT :: u32
  printed :: "val list list"

definition initial_030 :: ledger_030 where
  "initial_030 = \<lparr>OPENED = [], CLOSED = [], NEXT = 1, printed = []\<rparr>"

definition open_protocol_030 :: "build \<Rightarrow> ledger_030 \<Rightarrow> string \<Rightarrow> (ledger_030 \<times> u32) run" where
  "open_protocol_030 b l label =
     (let v = NEXT l in
      bind_run (prim_add b v 1) (\<lambda>n.
        Inr (l\<lparr>NEXT := n, OPENED := OPENED l @ [v],
               printed := printed l @ [[VStr label, VNat (unat v)]]\<rparr>, v)))"

definition open_child_from :: "build \<Rightarrow> ledger_030 \<Rightarrow> u32 \<Rightarrow> (ledger_030 \<times> u32) run" where
  "open_child_from b l vol = open_protocol_030 b l ''child''"

text \<open>The returned \<open>UefiFile\<close> is its protocol handle; dropping it closes that handle.\<close>

definition buggy_from_path :: "build \<Rightarrow> ledger_030 \<Rightarrow> (ledger_030 \<times> u32) run" where
  "buggy_from_path b l =
     bind_run (open_protocol_030 b l ''volume'') (\<lambda>(l, vol).
     bind_run (open_child_from b l vol) (\<lambda>(l, child). Inr (l, child)))"

definition drop_uefi_file :: "ledger_030 \<Rightarrow> u32 \<Rightarrow> ledger_030" where
  "drop_uefi_file l protocol =
     l\<lparr>CLOSED := CLOSED l @ [protocol], printed := printed l @ [[VNat (unat protocol)]]\<rparr>"

definition leaked_030 :: "ledger_030 \<Rightarrow> u32 list" where
  "leaked_030 l = filter (\<lambda>h. h \<notin> set (CLOSED l)) (OPENED l)"

definition scope_030 :: "build \<Rightarrow> ledger_030 \<Rightarrow> ledger_030 run" where
  "scope_030 b l = bind_run (buggy_from_path b l) (\<lambda>(l, f). Inr (drop_uefi_file l f))"

definition main_030 :: "build \<Rightarrow> unit io" where
  "main_030 b =
     lift_run (scope_030 b initial_030) (\<lambda>l.
       let opened = OPENED l; closed = CLOSED l; leaked = leaked_030 l in block
         (map println (printed l) @
         [println [VList (map (VNat \<circ> unat) opened)],
          println [VList (map (VNat \<circ> unat) closed)],
          println [VList (map (VNat \<circ> unat) leaked)],
          if leaked = [1] then block [println [], exit_process 0]
          else block [println [], exit_process 1]]))"

text \<open>The lines one scope prints: both handles as they open, the second as it closes.\<close>

definition scope_lines :: "nat \<Rightarrow> val list list" where
  "scope_lines v = [[VStr ''volume'', VNat v], [VStr ''child'', VNat (v + 1)], [VNat (v + 1)]]"

text \<open>A program that opens and drops \<open>n\<close> files in turn.\<close>

fun scopes_030 :: "build \<Rightarrow> nat \<Rightarrow> ledger_030 \<Rightarrow> ledger_030 run" where
  "scopes_030 b 0 l = Inr l"
| "scopes_030 b (Suc n) l = bind_run (scopes_030 b n l) (scope_030 b)"

lemma scope_030_eq:
  assumes "unat (NEXT l) + 2 < 2 ^ 32"
  shows "scope_030 b l = Inr (l\<lparr>NEXT := NEXT l + 2, OPENED := OPENED l @ [NEXT l, NEXT l + 1],
    CLOSED := CLOSED l @ [NEXT l + 1], printed := printed l @ scope_lines (unat (NEXT l))\<rparr>)"
proof -
  have one: "prim_add b (NEXT l) 1 = Inr (NEXT l + 1)" "unat (NEXT l + 1) = unat (NEXT l) + 1"
    using prim_nat(1) [of "NEXT l" 1 b] assms by simp_all
  have two: "prim_add b (NEXT l + 1) 1 = Inr (NEXT l + 1 + 1)"
    using prim_nat(1) [of "NEXT l + 1" 1 b] assms one(2) by simp
  show ?thesis
    by (simp add: scope_030_def buggy_from_path_def open_child_from_def open_protocol_030_def
        drop_uefi_file_def scope_lines_def one two Let_def add.assoc)
qed

lemma scopes_030_eq:
  "2 * n + 1 < 2 ^ 32 \<Longrightarrow> scopes_030 b n initial_030 =
     Inr \<lparr>OPENED = map word_of_nat [1..<2 * n + 1],
          CLOSED = map (\<lambda>i. word_of_nat (2 * i + 2)) [0..<n], NEXT = word_of_nat (2 * n + 1),
          printed = concat (map (\<lambda>i. scope_lines (2 * i + 1)) [0..<n])\<rparr>"
proof (induction n)
  case (Suc n)
  let ?l = "\<lparr>OPENED = map word_of_nat [1..<2 * n + 1],
          CLOSED = map (\<lambda>i. word_of_nat (2 * i + 2)) [0..<n], NEXT = word_of_nat (2 * n + 1),
          printed = concat (map (\<lambda>i. scope_lines (2 * i + 1)) [0..<n])\<rparr> :: ledger_030"
  have nxt: "unat (word_of_nat (2 * n + 1) :: u32) = 2 * n + 1"
    unfolding unat_of_nat using Suc.prems by simp
  have "scope_030 b ?l = Inr (?l\<lparr>NEXT := NEXT ?l + 2, OPENED := OPENED ?l @ [NEXT ?l, NEXT ?l + 1],
      CLOSED := CLOSED ?l @ [NEXT ?l + 1], printed := printed ?l @ scope_lines (unat (NEXT ?l))\<rparr>)"
    using Suc.prems nxt by (intro scope_030_eq) simp
  moreover have "[1..<2 * Suc n + 1] = [1..<2 * n + 1] @ [2 * n + 1, 2 * n + 2]" by simp
  ultimately show ?case using Suc nxt by (simp add: algebra_simps)
qed (simp add: initial_030_def)

lemma u32_of_nat_inject:
  "m < 2 ^ 32 \<Longrightarrow> n < 2 ^ 32 \<Longrightarrow> (word_of_nat m :: u32) = word_of_nat n \<longleftrightarrow> m = n"
proof -
  assume "m < 2 ^ 32" "n < 2 ^ 32"
  then have "unat (word_of_nat m :: u32) = m" "unat (word_of_nat n :: u32) = n"
    unfolding unat_of_nat by simp_all
  then show ?thesis by metis
qed

lemma odd_filter: "filter odd [1..<2 * n + 1] = map (\<lambda>i. 2 * i + 1) [0..<n]"
  by (induction n) simp_all

text \<open>
  A well-formed ledger: no handle is opened twice, only opened handles are closed, and the
  next handle lies above all of them.
\<close>

definition ledger_ok :: "ledger_030 \<Rightarrow> bool" where
  "ledger_ok l \<longleftrightarrow> distinct (OPENED l) \<and> set (CLOSED l) \<subseteq> set (OPENED l) \<and>
     list_all (\<lambda>h. h < NEXT l) (OPENED l)"

text \<open>C37. From every well-formed ledger with two handles left, opening a path and dropping the
  file returns in every build and leaves a well-formed ledger that leaks one more handle, the
  one the volume was opened with.\<close>

theorem scope_keeps_ledger:
  assumes "ledger_ok l" "unat (NEXT l) + 2 < 2 ^ 32"
  shows "\<exists>l'. scope_030 b l = Inr l' \<and> ledger_ok l' \<and> leaked_030 l' = leaked_030 l @ [NEXT l]"
proof -
  have n: "unat (NEXT l + 1) = unat (NEXT l) + 1" "unat (NEXT l + 2) = unat (NEXT l) + 2"
    using prim_nat(1) [of "NEXT l" 1 b] unat_add_exact [of "NEXT l" 2] assms(2) by simp_all
  have above: "h < NEXT l" "h \<noteq> NEXT l" "h \<noteq> NEXT l + 1" "h < NEXT l + 2" if "h \<in> set (OPENED l)" for h
    using assms(1) that n by (auto simp: ledger_ok_def list_all_iff word_less_nat_alt)
  have new: "NEXT l \<noteq> NEXT l + 1" "NEXT l < NEXT l + 2" "NEXT l + 1 < NEXT l + 2"
    using n by (auto simp: word_less_nat_alt)
  have closed: "h \<in> set (OPENED l)" if "h \<in> set (CLOSED l)" for h
    using assms(1) that by (auto simp: ledger_ok_def)
  let ?l' = "l\<lparr>NEXT := NEXT l + 2, OPENED := OPENED l @ [NEXT l, NEXT l + 1], CLOSED := CLOSED l @ [NEXT l + 1],
      printed := printed l @ scope_lines (unat (NEXT l))\<rparr>"
  have "ledger_ok ?l'"
    using assms(1) above new by (auto simp: ledger_ok_def list_all_iff)
  moreover have "leaked_030 ?l' = leaked_030 l @ [NEXT l]"
  proof -
    have "filter (\<lambda>h. h \<noteq> NEXT l + 1 \<and> h \<notin> set (CLOSED l)) (OPENED l) = leaked_030 l"
      unfolding leaked_030_def using above(3) by (intro filter_cong) auto
    then show ?thesis using above(2) closed new(1) by (auto simp: leaked_030_def)
  qed
  ultimately show ?thesis using scope_030_eq [OF assms(2)] by blast
qed

theorem scope_keeps_ledger_witness:
  "\<exists>l'. scope_030 checked_build initial_030 = Inr l' \<and> ledger_ok l' \<and> leaked_030 l' = [1]"
  using scope_keeps_ledger [of initial_030 checked_build]
  by (simp add: ledger_ok_def initial_030_def leaked_030_def)

text \<open>C38. Opening and dropping \<open>n\<close> files opens the handles 1 to \<open>2n\<close>, closes every second one
  and leaks exactly the \<open>n\<close> volume handles, the odd numbers, as long as the counter fits; the
  lines printed are those of each scope in turn.\<close>

theorem from_path_leaks_volumes:
  assumes "2 * n + 1 < 2 ^ 32"
  shows "\<exists>l. scopes_030 b n initial_030 = Inr l \<and>
    OPENED l = map word_of_nat [1..<2 * n + 1] \<and>
    leaked_030 l = map (\<lambda>i. word_of_nat (2 * i + 1)) [0..<n] \<and>
    printed l = concat (map (\<lambda>i. scope_lines (2 * i + 1)) [0..<n])"
proof -
  let ?C = "map (\<lambda>i. word_of_nat (2 * i + 2)) [0..<n] :: u32 list"
  have mem: "word_of_nat k \<notin> set ?C \<longleftrightarrow> odd k" if k: "k \<in> set [1..<2 * n + 1]" for k
  proof -
    have inj: "(word_of_nat k :: u32) = word_of_nat (2 * i + 2) \<longleftrightarrow> k = 2 * i + 2" if "i \<in> set [0..<n]" for i
      by (rule u32_of_nat_inject) (use k that assms in auto)
    have "word_of_nat k \<in> set ?C \<longleftrightarrow> (\<exists>i \<in> set [0..<n]. (word_of_nat k :: u32) = word_of_nat (2 * i + 2))"
      by (simp only: set_map image_iff)
    also have "\<dots> \<longleftrightarrow> (\<exists>i \<in> set [0..<n]. k = 2 * i + 2)"
      by (rule bex_cong [OF refl inj])
    also have "\<dots> \<longleftrightarrow> even k"
    proof
      assume "even k"
      then obtain j where "k = 2 * j" by (elim evenE)
      then have "k = 2 * (j - 1) + 2" "j - 1 \<in> set [0..<n]" using k by auto
      then show "\<exists>i \<in> set [0..<n]. k = 2 * i + 2" by blast
    qed auto
    finally show ?thesis by simp
  qed
  have f: "filter (\<lambda>k. word_of_nat k \<notin> set ?C) [1..<2 * n + 1] = filter odd [1..<2 * n + 1]"
    by (rule filter_cong [OF refl mem])
  have "filter (\<lambda>h. h \<notin> set ?C) (map word_of_nat [1..<2 * n + 1]) =
      map word_of_nat (filter odd [1..<2 * n + 1])"
    unfolding filter_map comp_def f ..
  then have "leaked_030 \<lparr>OPENED = map word_of_nat [1..<2 * n + 1], CLOSED = ?C, NEXT = k, printed = ls\<rparr> =
      map (\<lambda>i. word_of_nat (2 * i + 1)) [0..<n]" for k ls
    by (simp only: leaked_030_def ledger_030.simps odd_filter map_map comp_def)
  then show ?thesis
    by (intro exI conjI) (rule scopes_030_eq [OF assms], simp_all only: ledger_030.simps)
qed

theorem from_path_leaks_volumes_witness:
  "\<exists>l. scopes_030 checked_build 2 initial_030 = Inr l \<and> leaked_030 l = [1, 3]"
  using from_path_leaks_volumes [of 2 checked_build] by (auto simp: upt_rec)

lemma main_030_outcome: "exit_of (main_030 b) = Exited 0"
  using scope_030_eq [of initial_030 b]
  by (simp add: main_030_def initial_030_def leaked_030_def scope_lines_def exit_simps Let_def)

section \<open>Making a directory (031, 032)\<close>

record counts =
  OPEN_COUNT :: u32
  CLOSE_COUNT :: u32

definition open_protocol :: "build \<Rightarrow> counts \<Rightarrow> (counts \<times> u32) run" where
  "open_protocol b c =
     bind_run (prim_add b (OPEN_COUNT c) 1) (\<lambda>n. Inr (c\<lparr>OPEN_COUNT := n\<rparr>, n))"

text \<open>\<open>Drop\<close> of the file type, which neither routine constructs.\<close>

definition drop_file :: "build \<Rightarrow> counts \<Rightarrow> counts run" where
  "drop_file b c = bind_run (prim_add b (CLOSE_COUNT c) 1) (\<lambda>n. Inr (c\<lparr>CLOSE_COUNT := n\<rparr>))"

definition buggy_mkdir_path_exists :: "build \<Rightarrow> counts \<Rightarrow> (counts \<times> (unit, string) result) run" where
  "buggy_mkdir_path_exists b c =
     bind_run (open_protocol b c) (\<lambda>(c, _). Inr (c, Err ''AlreadyExists''))"

definition buggy_mkdir_create :: "build \<Rightarrow> counts \<Rightarrow> (counts \<times> (unit, string) result) run" where
  "buggy_mkdir_create b c = bind_run (open_protocol b c) (\<lambda>(c, _). Inr (c, Ok ()))"

text \<open>The end of both programs.\<close>

definition report_counts :: "counts \<Rightarrow> unit io" where
  "report_counts c = block
     [println [VNat (unat (OPEN_COUNT c)), VNat (unat (CLOSE_COUNT c))],
      if OPEN_COUNT c = 10 \<and> CLOSE_COUNT c = 0 then block [println [], exit_process 0]
      else block [println [], exit_process 1]]"

definition main_031 :: "build \<Rightarrow> unit io" where
  "main_031 b =
     lift_run (fold_run (\<lambda>_ c. bind_run (buggy_mkdir_path_exists b c) (\<lambda>(c, _). Inr c)) [0..<10]
       \<lparr>OPEN_COUNT = 0, CLOSE_COUNT = 0\<rparr>) report_counts"

definition main_032 :: "build \<Rightarrow> unit io" where
  "main_032 b =
     lift_run (fold_run (\<lambda>_ c. bind_run (buggy_mkdir_create b c) (\<lambda>(c, r).
         bind_run (unwrap_result r) (\<lambda>_. Inr c))) [0..<10]
       \<lparr>OPEN_COUNT = 0, CLOSE_COUNT = 0\<rparr>) report_counts"

lemma mkdir_outcomes: "exit_of (main_031 b) = Exited 0" "exit_of (main_032 b) = Exited 0"
  by (simp_all add: main_031_def main_032_def buggy_mkdir_path_exists_def buggy_mkdir_create_def
      open_protocol_def report_counts_def prim_add_def upt_rec exit_simps)

end
