(* ===== verification/Rewriter_Drivers.thy ===== *)
theory Rewriter_Drivers
  imports Prelude Decimal
begin

text \<open>
  The two drivers that feed a streaming HTML rewriter and watch the resident set (lol-html
  001 and 002). The rewriter crate and the kernel are not part of the sources: building a
  rewriter, writing a chunk and \<open>getrusage\<close> are arguments, functions on a system state. The
  theorems say what the rewriter is fed and what is reported when it refuses a chunk.
\<close>

type_synonym 's write_fn = "'s \<Rightarrow> u8 list \<Rightarrow> 's \<times> (unit, string) result"

text \<open>
  The resident set: \<open>getrusage\<close> fills the structure it is given, and its status is ignored.
  The field is an \<open>i64\<close> read as a \<open>usize\<close>, which keeps the bits.
\<close>

record rusage =
  ru_utime :: "u64 list"
  ru_stime :: "u64 list"
  ru_maxrss :: i64
  pad :: "i64 list"

definition default_rusage :: rusage where
  "default_rusage =
     \<lparr>ru_utime = replicate 2 0, ru_stime = replicate 2 0, ru_maxrss = 0, pad = replicate 14 0\<rparr>"

type_synonym 's getrusage_fn = "'s \<Rightarrow> i32 \<Rightarrow> rusage \<Rightarrow> rusage \<times> i32"

definition rss_bytes :: "'s getrusage_fn \<Rightarrow> 's \<Rightarrow> usize" where
  "rss_bytes getrusage s = (let (u, _) = getrusage s 0 default_rusage in ru_maxrss u)"

text \<open>A report line: the count, the resident set and its signed growth.\<close>

definition report :: "build \<Rightarrow> nat \<Rightarrow> usize \<Rightarrow> usize \<Rightarrow> unit io" where
  "report b i cur start =
     lift_run (prim_ssub b cur start) (\<lambda>delta.
       println [VNat i, VNat (unat cur), VInt (sint delta)])"

text \<open>The number of elements: the first argument when it parses, a default otherwise.\<close>

definition element_count :: "u8 list option \<Rightarrow> nat \<Rightarrow> nat" where
  "element_count arg default_count =
     (case Option.bind arg usize_from_str of None \<Rightarrow> default_count | Some n \<Rightarrow> unat n)"

text \<open>Running a loop body after what has been printed so far; an early end stays.\<close>

fun io_then :: "unit io \<Rightarrow> ('s \<times> unit io) \<Rightarrow> 's \<times> unit io" where
  "io_then m (s, m') = (s, block [m, m'])"

text \<open>
  The settings the drivers build. The defaults are the crate's, with fields the drivers do not
  name; the record types leave room for them. A content handler is registered for a selector;
  the one of the second driver accepts every element. The sink either collects the output
  or drops it.
\<close>

record memory_settings =
  max_allowed_memory_usage :: usize

record ('el, 'm) settings =
  element_content_handlers :: "(string \<times> ('el \<Rightarrow> (unit, string) result)) list"
  memory_settings :: 'm

datatype sink = Collect | Discard

section \<open>Unclosed foreign tags (001)\<close>

definition settings_lol1 ::
  "'m memory_settings_scheme \<Rightarrow> ('el, 'm memory_settings_scheme, 'z) settings_scheme \<Rightarrow>
   ('el, 'm memory_settings_scheme, 'z) settings_scheme" where
  "settings_lol1 memory_default settings_new =
     settings_new\<lparr>memory_settings := memory_default\<lparr>max_allowed_memory_usage := 1\<rparr>\<rparr>"

definition svg_chunk :: "u8 list" where
  "svg_chunk = concat (replicate 1024 (map of_char ''<svg>''))"

fun svg_loop ::
  "build \<Rightarrow> 's write_fn \<Rightarrow> ('s \<Rightarrow> usize) \<Rightarrow> usize \<Rightarrow> nat list \<Rightarrow> 's \<Rightarrow> nat \<Rightarrow> 's \<times> unit io" where
  "svg_loop b write_chunk rss start_rss [] s last_print = (s, ([], Inr ()))"
| "svg_loop b write_chunk rss start_rss (i # is) s last_print =
     (case write_chunk s svg_chunk of
        (s, Err e) \<Rightarrow> (s, block [println [VNat (i * 1024), VStr e], exit_process 0])
      | (s, Ok _) \<Rightarrow>
          (if 256 \<le> i - last_print
           then io_then (report b (i * 1024) (rss s) start_rss)
                  (svg_loop b write_chunk rss start_rss is s i)
           else svg_loop b write_chunk rss start_rss is s last_print))"

definition main_lol1 ::
  "build \<Rightarrow> (('el, 'm memory_settings_scheme, 'z) settings_scheme \<Rightarrow> sink \<Rightarrow> 's) \<Rightarrow> 's write_fn \<Rightarrow>
   's getrusage_fn \<Rightarrow> 'm memory_settings_scheme \<Rightarrow> ('el, 'm memory_settings_scheme, 'z) settings_scheme \<Rightarrow>
   u8 list option \<Rightarrow> 's \<times> unit io" where
  "main_lol1 b rewriter_new write_chunk getrusage memory_default settings_new arg =
     (let rss = rss_bytes getrusage; s = rewriter_new (settings_lol1 memory_default settings_new) Collect; n = element_count arg 2000000;
          start_rss = rss s;
          (s, loop_out) = svg_loop b write_chunk rss start_rss [0..<n div 1024] s 0;
          end_rss = rss s
      in (s, block [loop_out,
        lift_run (prim_ssub b end_rss start_rss) (\<lambda>delta.
          println [VNat (unat start_rss), VNat (unat end_rss), VInt (sint delta)])]))"

section \<open>Distinct element names (002)\<close>

definition unique_tag :: "nat \<Rightarrow> u8 list" where
  "unique_tag i =
     map of_char ''<x'' @ decimal i @ map of_char ''></x'' @ decimal i @ map of_char ''>''"

fun tag_loop ::
  "build \<Rightarrow> 's write_fn \<Rightarrow> ('s \<Rightarrow> usize) \<Rightarrow> usize \<Rightarrow> nat list \<Rightarrow> 's \<Rightarrow> nat \<Rightarrow> 's \<times> unit io" where
  "tag_loop b write_chunk rss start_rss [] s printed = (s, ([], Inr ()))"
| "tag_loop b write_chunk rss start_rss (i # is) s printed =
     (case write_chunk s (unique_tag i) of
        (s, Err e) \<Rightarrow> (s, block [println [VNat i, VStr e], exit_process 0])
      | (s, Ok _) \<Rightarrow>
          (if 50000 \<le> i - printed
           then io_then (report b i (rss s) start_rss)
                  (tag_loop b write_chunk rss start_rss is s i)
           else tag_loop b write_chunk rss start_rss is s printed))"

definition settings_lol2 ::
  "'m memory_settings_scheme \<Rightarrow> ('el, 'm memory_settings_scheme, 'z) settings_scheme \<Rightarrow>
   ('el, 'm memory_settings_scheme, 'z) settings_scheme" where
  "settings_lol2 memory_default settings_new =
     settings_new\<lparr>element_content_handlers := [(''*:nth-of-type(2)'', \<lambda>_. Ok ())],
       memory_settings := memory_default\<lparr>max_allowed_memory_usage := 100000\<rparr>\<rparr>"

definition document_start :: "u8 list" where
  "document_start = map of_char ''<html><body><div>''"

definition main_lol2 ::
  "build \<Rightarrow> (('el, 'm memory_settings_scheme, 'z) settings_scheme \<Rightarrow> sink \<Rightarrow> 's) \<Rightarrow> 's write_fn \<Rightarrow>
   's getrusage_fn \<Rightarrow> 'm memory_settings_scheme \<Rightarrow> ('el, 'm memory_settings_scheme, 'z) settings_scheme \<Rightarrow>
   u8 list option \<Rightarrow> 's \<times> unit io" where
  "main_lol2 b rewriter_new write_chunk getrusage memory_default settings_new arg =
     (let rss = rss_bytes getrusage; s = rewriter_new (settings_lol2 memory_default settings_new) Discard; n = element_count arg 1000000 in
      case write_chunk s document_start of
        (s, Err e) \<Rightarrow> (s, ([], Inl (Panicked UnwrapErr)))
      | (s, Ok _) \<Rightarrow>
          (let start_rss = rss s;
               (s, loop_out) = tag_loop b write_chunk rss start_rss [0..<n] s 0;
               end_rss = rss s
           in (s, block [loop_out,
             lift_run (prim_ssub b end_rss start_rss) (\<lambda>delta.
               println [VNat (unat start_rss), VNat (unat end_rss), VInt (sint delta)])])))"

section \<open>What the rewriter is fed\<close>

text \<open>A rewriter that accepts everything and keeps what it is given.\<close>

definition accept_all :: "u8 list list write_fn" where
  "accept_all s chunk = (s @ [chunk], Ok ())"

lemma fst_io_then [simp]: "fst (io_then m p) = fst p"
  by (cases p) simp

lemma svg_loop_fed:
  "fst (svg_loop b accept_all rss start is s lp) = s @ replicate (length is) svg_chunk"
  by (induction "is" arbitrary: s lp) (simp_all add: accept_all_def replicate_append_same)

lemma tag_loop_fed:
  "fst (tag_loop b accept_all rss start is s lp) = s @ map unique_tag is"
  by (induction "is" arbitrary: s lp) (simp_all add: accept_all_def)

lemma concat_replicate_concat:
  "concat (replicate m (concat (replicate n x))) = concat (replicate (m * n) x)"
  by (induction m) (simp_all add: replicate_add)

lemma decimal_inject: "decimal m = decimal n \<longleftrightarrow> m = n"
  using decimal_digits [of m] decimal_digits [of n] by metis

lemma digits_until:
  assumes "list_all ascii_digit ds" "list_all ascii_digit ds'" "\<not> ascii_digit c"
    and "ds @ c # r = ds' @ c # r'"
  shows "ds = ds'"
  using assms
proof (induction ds arbitrary: ds')
  case Nil
  then show ?case by (cases ds') auto
next
  case (Cons d ds)
  then show ?case by (cases ds') auto
qed

lemma unique_tag_inject: "unique_tag i = unique_tag j \<longleftrightarrow> i = j"
proof
  assume "unique_tag i = unique_tag j"
  then have "decimal i @ 62 # map of_char ''</x'' @ decimal i @ map of_char ''>'' =
      decimal j @ 62 # map of_char ''</x'' @ decimal j @ map of_char ''>''"
    by (simp add: unique_tag_def)
  moreover have "\<not> ascii_digit 62" by (simp add: ascii_digit_def word_le_nat_alt)
  ultimately have "decimal i = decimal j"
    using digits_until decimal_digits [of i] decimal_digits [of j] by blast
  then show "i = j" by (simp add: decimal_inject)
qed simp

lemma element_count_decimal:
  "element_count (Some (decimal n)) d = (if n < 2 ^ 64 then n else d)"
proof -
  have "unat (word_of_nat n :: usize) = n" if "n < 2 ^ 64"
    unfolding unat_of_nat using that by simp
  then show ?thesis by (simp add: element_count_def usize_from_str_decimal)
qed

text \<open>For every count given on the command line, the first driver feeds the rewriter the
  count rounded down to a multiple of 1024 of opening tags and nothing else; the second feeds
  the document start and then as many tags as the count, no two of them alike.\<close>

theorem rewriter_input:
  "concat (fst (main_lol1 b (\<lambda>_ _. []) accept_all getrusage md sn (Some (decimal n)))) =
     concat (replicate ((if n < 2 ^ 64 then n else 2000000) div 1024 * 1024) (map of_char ''<svg>'')) \<and>
   fst (main_lol2 b (\<lambda>_ _. []) accept_all getrusage md sn (Some (decimal n))) =
     document_start # map unique_tag [0..<(if n < 2 ^ 64 then n else 1000000)] \<and>
   distinct (map unique_tag [0..<n])"
proof -
  have "distinct (map unique_tag [0..<n])"
    by (simp add: distinct_map inj_on_def unique_tag_inject)
  moreover have "fst (main_lol1 b (\<lambda>_ _. []) accept_all getrusage md sn (Some (decimal n))) =
      replicate ((if n < 2 ^ 64 then n else 2000000) div 1024) svg_chunk"
    by (simp add: main_lol1_def element_count_decimal Let_def svg_loop_fed split_beta del: replicate.simps)
  moreover have "fst (main_lol2 b (\<lambda>_ _. []) accept_all getrusage md sn (Some (decimal n))) =
      document_start # map unique_tag [0..<(if n < 2 ^ 64 then n else 1000000)]"
    by (simp add: main_lol2_def element_count_decimal Let_def accept_all_def [of _ document_start] tag_loop_fed split_beta)
  ultimately show ?thesis by (simp only: svg_chunk_def concat_replicate_concat)
qed

section \<open>A rewriter that refuses a chunk\<close>

text \<open>It keeps the first \<open>k\<close> chunks and then fails with \<open>e\<close>, as at a memory limit.\<close>

definition refuse_after :: "nat \<Rightarrow> string \<Rightarrow> u8 list list write_fn" where
  "refuse_after k e s chunk = (if length s < k then (s @ [chunk], Ok ()) else (s, Err e))"

text \<open>A resident set that is not negative, so that its growth fits an \<open>isize\<close>.\<close>

definition sane_rss :: "('s \<Rightarrow> usize) \<Rightarrow> bool" where
  "sane_rss rss \<longleftrightarrow> (\<forall>s. 0 \<le> sint (rss s))"

lemma ssub_sane:
  "0 \<le> sint x \<Longrightarrow> 0 \<le> sint y \<Longrightarrow> prim_ssub b x y = Inr (x - y)" for x y :: usize
  using sint_bounds [of x] sint_bounds [of y] by (simp add: prim_ssub_def fits_signed_def)

lemma report_sane:
  "0 \<le> sint x \<Longrightarrow> 0 \<le> sint y \<Longrightarrow> \<exists>ls. report b i x y = (ls, Inr ())"
  by (simp add: report_def println_def ssub_sane)

text \<open>The two loops are one, with their chunks, their labels and their intervals.\<close>

fun drive ::
  "build \<Rightarrow> (nat \<Rightarrow> u8 list) \<Rightarrow> (nat \<Rightarrow> nat) \<Rightarrow> nat \<Rightarrow> 's write_fn \<Rightarrow> ('s \<Rightarrow> usize) \<Rightarrow> usize \<Rightarrow>
   nat list \<Rightarrow> 's \<Rightarrow> nat \<Rightarrow> 's \<times> unit io" where
  "drive b chunk label every write_chunk rss start_rss [] s lp = (s, ([], Inr ()))"
| "drive b chunk label every write_chunk rss start_rss (i # is) s lp =
     (case write_chunk s (chunk i) of
        (s, Err e) \<Rightarrow> (s, block [println [VNat (label i), VStr e], exit_process 0])
      | (s, Ok _) \<Rightarrow>
          (if every \<le> i - lp
           then io_then (report b (label i) (rss s) start_rss)
                  (drive b chunk label every write_chunk rss start_rss is s i)
           else drive b chunk label every write_chunk rss start_rss is s lp))"

lemma svg_loop_drive:
  "svg_loop b w rss start is s lp = drive b (\<lambda>_. svg_chunk) (\<lambda>i. i * 1024) 256 w rss start is s lp"
  by (induction "is" arbitrary: s lp) (simp_all split: prod.split result.split)

lemma tag_loop_drive: "tag_loop b w rss start is s lp = drive b unique_tag (\<lambda>i. i) 50000 w rss start is s lp"
  by (induction "is" arbitrary: s lp) (simp_all split: prod.split result.split)

text \<open>A loop that meets the refusal at index \<open>m\<close>, if the count is above it.\<close>

definition stopped_at :: "nat \<Rightarrow> nat \<Rightarrow> val list \<Rightarrow> unit io \<Rightarrow> bool" where
  "stopped_at m c line out \<longleftrightarrow>
     (if m < c then snd out = Inl (Exited 0) \<and> fst out \<noteq> [] \<and> last (fst out) = line
      else snd out = Inr ())"

lemma stopped_at_then:
  "stopped_at m c line out \<Longrightarrow> stopped_at m c line (block [(ls, Inr ()), out])"
  by (cases out; cases "snd out") (auto simp: stopped_at_def split: if_splits)

lemma drive_refused:
  assumes "\<And>s. 0 \<le> sint (rss s)" "0 \<le> sint start" "length s + m = k + j" "j \<le> m" "j \<le> c"
  shows "fst (drive b chunk label every (refuse_after k e) rss start [j..<c] s lp) = s @ map chunk [j..<min m c] \<and>
    stopped_at m c [VNat (label m), VStr e]
      (snd (drive b chunk label every (refuse_after k e) rss start [j..<c] s lp))"
  using assms(3-5)
proof (induction "c - j" arbitrary: j s lp)
  case 0
  then show ?case by (simp add: stopped_at_def)
next
  case (Suc d)
  have split: "[j..<c] = j # [Suc j..<c]" using Suc.hyps(2) by (simp add: upt_conv_Cons)
  show ?case
  proof (cases "j = m")
    case True
    then show ?thesis
      using Suc.prems Suc.hyps(2)
      by (simp add: split [unfolded True] refuse_after_def stopped_at_def println_def exit_process_def)
  next
    case False
    let ?s = "s @ [chunk j]"
    have "d = c - Suc j" "length ?s + m = k + Suc j" "Suc j \<le> m" "Suc j \<le> c"
      using Suc.hyps(2) Suc.prems False by simp_all
    note IH = Suc.hyps(1) [OF this]
    have step: "refuse_after k e s (chunk j) = (?s, Ok ())"
      using Suc.prems False by (simp add: refuse_after_def)
    have more: "[j..<min m c] = j # [Suc j..<min m c]"
      using \<open>Suc j \<le> m\<close> \<open>Suc j \<le> c\<close> by (simp add: upt_conv_Cons)
    obtain ls where rep: "report b (label j) (rss ?s) start = (ls, Inr ())"
      using report_sane assms(1,2) by blast
    then show ?thesis
      using IH [of lp] IH [of j] step
      by (cases "drive b chunk label every (refuse_after k e) rss start [Suc j..<c] ?s j")
         (auto simp: split more rep simp del: upt_Suc block.simps intro: stopped_at_then)
  qed
qed

lemma stopped_block:
  "stopped_at m c line out \<Longrightarrow> exit_of (block [out, (ls, Inr ())]) = Exited 0 \<and>
     (if m < c then last (fst (block [out, (ls, Inr ())])) = line else True)"
  by (cases out; cases "snd out") (auto simp: stopped_at_def exit_of_def split: if_splits)

lemma final_report:
  assumes "sane_rss rss"
  obtains ls where "lift_run (prim_ssub b (rss s) (rss t)) (\<lambda>d. println (vs d)) = (ls, Inr ())"
  using assms ssub_sane by (auto simp: sane_rss_def println_def)

text \<open>What a driver leaves: the chunks the rewriter has kept, a normal end, and, when it was
  refused, a last line with the count it had reached and the error.\<close>

definition stopped_with :: "u8 list list \<Rightarrow> bool \<Rightarrow> val list \<Rightarrow> u8 list list \<times> unit io \<Rightarrow> bool" where
  "stopped_with fed refused line r \<longleftrightarrow>
     (case r of (s, out) \<Rightarrow> s = fed \<and> exit_of out = Exited 0 \<and>
       (if refused then last (fst out) = line else True))"

text \<open>C21. With a rewriter that keeps \<open>k\<close> chunks and fails from then on, a driver stops at that
  chunk, for every count and every build: it has fed what the rewriter kept, ends normally,
  and its last line has the number of tags before the failing chunk and the error. The second
  driver panics when the document start is refused, which counts as one of the \<open>k\<close>.\<close>

theorem rewriter_stops:
  assumes "sane_rss (rss_bytes getrusage)"
  shows "(let c = element_count arg 2000000 div 1024
      in stopped_with (replicate (min k c) svg_chunk) (k < c) [VNat (k * 1024), VStr e]
           (main_lol1 b (\<lambda>_ _. []) (refuse_after k e) getrusage md sn arg)) \<and>
    (let c = element_count arg 1000000
     in stopped_with (document_start # map unique_tag [0..<min k c]) (k < c) [VNat k, VStr e]
          (main_lol2 b (\<lambda>_ _. []) (refuse_after (Suc k) e) getrusage md sn arg)) \<and>
    main_lol2 b (\<lambda>_ _. []) (refuse_after 0 e) getrusage md sn arg = ([], [], Inl (Panicked UnwrapErr))"
proof (intro conjI)
  let ?rss = "rss_bytes getrusage"
  have sane: "0 \<le> sint (?rss s)" for s using assms by (simp add: sane_rss_def)
  define c where "c = element_count arg 2000000 div 1024"
  let ?l = "svg_loop b (refuse_after k e) ?rss (?rss []) [0..<c] [] 0"
  have l: "fst ?l = replicate (min k c) svg_chunk" "stopped_at k c [VNat (k * 1024), VStr e] (snd ?l)"
    using drive_refused [of ?rss "?rss []" "[]" k k 0 c b "\<lambda>_. svg_chunk" "\<lambda>i. i * 1024" 256 e 0] sane
    by (simp_all add: svg_loop_drive map_replicate_const)
  obtain ls where "lift_run (prim_ssub b (?rss (fst ?l)) (?rss []))
      (\<lambda>d. println [VNat (unat (?rss [])), VNat (unat (?rss (fst ?l))), VInt (sint d)]) = (ls, Inr ())"
    using final_report [OF assms] .
  then have "main_lol1 b (\<lambda>_ _. []) (refuse_after k e) getrusage md sn arg = (fst ?l, block [snd ?l, (ls, Inr ())])"
    by (simp add: main_lol1_def c_def Let_def split_beta)
  then show "let c = element_count arg 2000000 div 1024
    in stopped_with (replicate (min k c) svg_chunk) (k < c) [VNat (k * 1024), VStr e]
         (main_lol1 b (\<lambda>_ _. []) (refuse_after k e) getrusage md sn arg)"
    using stopped_block [OF l(2), of ls] l(1)
    unfolding c_def [symmetric] Let_def stopped_with_def by (simp del: block.simps)
next
  let ?rss = "rss_bytes getrusage" and ?s = "[document_start]"
  have sane: "0 \<le> sint (?rss s)" for s using assms by (simp add: sane_rss_def)
  define c where "c = element_count arg 1000000"
  let ?t = "tag_loop b (refuse_after (Suc k) e) ?rss (?rss ?s) [0..<c] ?s 0"
  have t: "fst ?t = document_start # map unique_tag [0..<min k c]" "stopped_at k c [VNat k, VStr e] (snd ?t)"
    using drive_refused [of ?rss "?rss ?s" ?s k "Suc k" 0 c b unique_tag "\<lambda>i. i" 50000 e 0] sane
    by (simp_all add: tag_loop_drive)
  obtain ls where "lift_run (prim_ssub b (?rss (fst ?t)) (?rss ?s))
      (\<lambda>d. println [VNat (unat (?rss ?s)), VNat (unat (?rss (fst ?t))), VInt (sint d)]) = (ls, Inr ())"
    using final_report [OF assms] .
  then have "main_lol2 b (\<lambda>_ _. []) (refuse_after (Suc k) e) getrusage md sn arg = (fst ?t, block [snd ?t, (ls, Inr ())])"
    by (simp add: main_lol2_def c_def refuse_after_def [of _ _ "[]"] Let_def split_beta)
  then show "let c = element_count arg 1000000
    in stopped_with (document_start # map unique_tag [0..<min k c]) (k < c) [VNat k, VStr e]
         (main_lol2 b (\<lambda>_ _. []) (refuse_after (Suc k) e) getrusage md sn arg)"
    using stopped_block [OF t(2), of ls] t(1)
    unfolding c_def [symmetric] Let_def stopped_with_def by (simp del: block.simps)
next
  show "main_lol2 b (\<lambda>_ _. []) (refuse_after 0 e) getrusage md sn arg = ([], [], Inl (Panicked UnwrapErr))"
    by (simp add: main_lol2_def refuse_after_def)
qed

text \<open>A limit that is met after three chunks, with a resident set that stays.\<close>

definition no_limit :: memory_settings where
  "no_limit = \<lparr>max_allowed_memory_usage = - 1\<rparr>"

definition no_handlers :: "(unit, memory_settings) settings" where
  "no_handlers = \<lparr>element_content_handlers = [], memory_settings = no_limit\<rparr>"

theorem rewriter_stops_witness:
  "stopped_with (replicate 3 svg_chunk) True [VNat 3072, VStr ''limit'']
     (main_lol1 checked_build (\<lambda>_ _. []) (refuse_after 3 ''limit'') (\<lambda>_ _ u. (u, 0)) no_limit no_handlers
        (Some (decimal 10000)))"
proof -
  have sane: "sane_rss (rss_bytes (\<lambda>(_ :: u8 list list) _ u. (u, 0)))"
    by (simp add: sane_rss_def rss_bytes_def default_rusage_def)
  have "3 < element_count (Some (decimal 10000)) 2000000 div 1024"
    by (simp add: element_count_decimal)
  then show ?thesis
    using rewriter_stops [OF sane, of "Some (decimal 10000)" 3 "''limit''" checked_build no_limit no_handlers]
    by (simp add: Let_def)
qed

end
