(* ===== verification/Library_Calls.thy ===== *)
theory Library_Calls
  imports Prelude
begin

text \<open>
  The programs around an unstable library feature: chunks of an iterator (183, 184) and the
  reflection of a type (098). The library is not part of the sources. \<open>next_chunk\<close> and the
  type information are arguments of the programs; the loop of \<open>Filter::next_chunk\<close>, which the
  report on 183 and its patch quote, is modelled as quoted.
\<close>

section \<open>Chunks of a filter (183)\<close>

record 'a filter_iter =
  source :: "'a list"
  predicate :: "'a \<Rightarrow> bool"

text \<open>\<open>next\<close>: the first element of the source that the predicate accepts.\<close>

fun next_accepted :: "('a \<Rightarrow> bool) \<Rightarrow> 'a list \<Rightarrow> 'a option \<times> 'a list" where
  "next_accepted p [] = (None, [])"
| "next_accepted p (x # xs) = (if p x then (Some x, xs) else next_accepted p xs)"

definition next_filter :: "'a filter_iter \<Rightarrow> 'a option \<times> 'a filter_iter" where
  "next_filter it = (case next_accepted (predicate it) (source it) of
     (x, rest) \<Rightarrow> (x, it\<lparr>source := rest\<rparr>))"

text \<open>
  \<open>try_for_each\<close> of the source: it ends at the first break, and leaves the elements after it.
\<close>

fun try_for_each :: "('x \<Rightarrow> 's \<Rightarrow> ('s \<times> bool) run) \<Rightarrow> 'x list \<Rightarrow> 's \<Rightarrow> ('x list \<times> 's \<times> bool) run" where
  "try_for_each f [] s = Inr ([], s, False)"
| "try_for_each f (x # xs) s =
     bind_run (f x s) (\<lambda>(s, break). if break then Inr (xs, s, True) else try_for_each f xs s)"

text \<open>
  The closure of the loop. The array of \<open>N\<close> elements that may be uninitialised is a list of
  options; \<open>get_unchecked_mut\<close> is outside its contract at an index that is not below its
  length. Every element is written, an accepted one also counts; the break comes after the
  write.
\<close>

type_synonym 'a chunk_state = "'a option list \<times> nat"

definition chunk_element :: "nat \<Rightarrow> ('a \<Rightarrow> bool) \<Rightarrow> 'a \<Rightarrow> 'a chunk_state \<Rightarrow> ('a chunk_state \<times> bool) run" where
  "chunk_element N pred element s =
     (case s of (array, initialized) \<Rightarrow>
       (let idx = initialized;
            initialized = idx + of_bool (pred element)
        in if idx < length array
           then Inr ((array[idx := Some element], initialized), \<not> initialized < N)
           else Inl UndefinedBehavior))"

definition next_chunk_dropless ::
  "nat \<Rightarrow> ('a \<Rightarrow> bool) \<Rightarrow> 'a list \<Rightarrow> ('a list \<times> 'a chunk_state \<times> bool) run" where
  "next_chunk_dropless N pred iter =
     (let array = replicate N None; initialized = 0
      in try_for_each (chunk_element N pred) iter (array, initialized))"

text \<open>The patch: an empty chunk is returned before the loop, as a full one.\<close>

definition next_chunk_patched ::
  "nat \<Rightarrow> ('a \<Rightarrow> bool) \<Rightarrow> 'a list \<Rightarrow> ('a list \<times> 'a chunk_state \<times> bool) run" where
  "next_chunk_patched N pred iter =
     (let array = replicate N None
      in if N = 0 then Inr (iter, (array, 0), True) else next_chunk_dropless N pred iter)"

text \<open>
  What follows the loop is not quoted. \<open>next_chunk\<close> is documented to return the array when it
  has been filled, and otherwise the elements there were.
\<close>

type_synonym 'a next_chunk_fn = "nat \<Rightarrow> 'a filter_iter \<Rightarrow> (('a list, 'a list) result \<times> 'a filter_iter) run"

definition chunk_by ::
  "(nat \<Rightarrow> ('a \<Rightarrow> bool) \<Rightarrow> 'a list \<Rightarrow> ('a list \<times> 'a chunk_state \<times> bool) run) \<Rightarrow>
   (bool \<Rightarrow> 'a chunk_state \<Rightarrow> ('a list, 'a list) result) \<Rightarrow> 'a next_chunk_fn" where
  "chunk_by fill finish N it =
     bind_run (fill N (predicate it) (source it)) (\<lambda>(rest, s, full).
       Inr (finish full s, it\<lparr>source := rest\<rparr>))"

definition documented_finish :: "(bool \<Rightarrow> 'a chunk_state \<Rightarrow> ('a list, 'a list) result) \<Rightarrow> bool" where
  "documented_finish finish \<longleftrightarrow>
     (\<forall>array k. finish True (array, k) = Ok (map the array)) \<and>
     (\<forall>array k. finish False (array, k) = Err (map the (take k array)))"

definition render_chunk :: "(u8 list, u8 list) result \<Rightarrow> val" where
  "render_chunk r = (case r of
      Ok xs \<Rightarrow> VOk (VList (map (VNat \<circ> unat) xs))
    | Err xs \<Rightarrow> VErr (VList (map (VNat \<circ> unat) xs)))"

definition render_next :: "u8 option \<Rightarrow> val" where
  "render_next r = (case r of None \<Rightarrow> VNone | Some x \<Rightarrow> VSome (VNat (unat x)))"

definition it_183 :: "u8 filter_iter" where
  "it_183 = \<lparr>source = [10, 20], predicate = (\<lambda>_. True)\<rparr>"

definition main_183 :: "u8 next_chunk_fn \<Rightarrow> unit io" where
  "main_183 next_chunk =
     lift_run (next_chunk 0 it_183) (\<lambda>(chunk, it).
       (let (nxt, it) = next_filter it
        in block
         [println [render_chunk chunk, render_next nxt],
          assert_that (chunk = Ok []),
          assert_that (nxt = Some 20)]))"

section \<open>Chunks of a filter map (184)\<close>

text \<open>The adapter of 184 maps while it filters; its source is a single unit.\<close>

record ('a, 'b) filter_map_iter =
  map_source :: "'a list"
  map_fn :: "'a \<Rightarrow> 'b option"

definition it_184 :: "(unit, u8 list) filter_map_iter" where
  "it_184 = \<lparr>map_source = [()], map_fn = (\<lambda>_. Some (replicate 4096 0xAA))\<rparr>"

definition main_184 ::
  "(nat \<Rightarrow> (unit, u8 list) filter_map_iter \<Rightarrow>
     ((u8 list list, u8 list list) result \<times> (unit, u8 list) filter_map_iter) run) \<Rightarrow> unit io" where
  "main_184 next_chunk = lift_run (next_chunk 0 it_184) (\<lambda>(_, it). block [])"

section \<open>A chunk is as many calls of \<open>next\<close>\<close>

text \<open>The specification: \<open>next\<close> up to \<open>N\<close> times; the chunk is complete or an error.\<close>

fun next_n :: "nat \<Rightarrow> 'a filter_iter \<Rightarrow> 'a list \<times> 'a filter_iter" where
  "next_n 0 it = ([], it)"
| "next_n (Suc n) it =
     (case next_filter it of
        (None, it) \<Rightarrow> ([], it)
      | (Some x, it) \<Rightarrow> (case next_n n it of (xs, it) \<Rightarrow> (x # xs, it)))"

definition next_chunk_spec :: "nat \<Rightarrow> 'a filter_iter \<Rightarrow> ('a list, 'a list) result \<times> 'a filter_iter" where
  "next_chunk_spec N it =
     (case next_n N it of (xs, it) \<Rightarrow> (if length xs = N then Ok xs else Err xs, it))"


lemma next_filter_cons:
  "next_filter \<lparr>source = x # xs, predicate = p\<rparr> =
     (if p x then (Some x, \<lparr>source = xs, predicate = p\<rparr>) else next_filter \<lparr>source = xs, predicate = p\<rparr>)"
  by (simp add: next_filter_def split: prod.split)

lemma next_n_rejected:
  "\<not> p x \<Longrightarrow> 0 < n \<Longrightarrow> next_n n \<lparr>source = x # xs, predicate = p\<rparr> = next_n n \<lparr>source = xs, predicate = p\<rparr>"
  by (cases n) (simp_all add: next_filter_cons)

lemma next_n_accepted:
  "p x \<Longrightarrow> next_n (Suc n) \<lparr>source = x # xs, predicate = p\<rparr> =
     (case next_n n \<lparr>source = xs, predicate = p\<rparr> of (ys, it) \<Rightarrow> (x # ys, it))"
  by (simp add: next_filter_cons)

lemma next_n_nil: "0 < n \<Longrightarrow> next_n n \<lparr>source = [], predicate = p\<rparr> = ([], \<lparr>source = [], predicate = p\<rparr>)"
  by (cases n) (simp_all add: next_filter_def)

text \<open>
  What the loop has when it ends, against the calls of \<open>next\<close> that are left to make: a loop
  that starts below its bound never writes outside the array.
\<close>

definition filled :: "nat \<Rightarrow> 'a option list \<Rightarrow> ('a list \<times> 'a chunk_state \<times> bool) run \<Rightarrow> 'a list \<times> 'a filter_iter \<Rightarrow> bool" where
  "filled N prefix r spec \<longleftrightarrow>
     (case (r, spec) of
        (Inr (rest, (array, k), full), (ys, it)) \<Rightarrow>
          source it = rest \<and> length array = N \<and> k = length prefix + length ys \<and>
          take k array = prefix @ map Some ys \<and> full = (k = N)
      | _ \<Rightarrow> False)"

lemma filled_cons: "filled N (prefix @ [Some x]) r (ys, it) \<Longrightarrow> filled N prefix r (x # ys, it)"
  by (auto simp: filled_def split: sum.splits prod.splits)

lemma chunk_element_inside:
  "k < length array \<Longrightarrow> chunk_element N p x (array, k) =
     Inr ((array[k := Some x], if p x then Suc k else k), \<not> (if p x then Suc k else k) < N)"
  by (simp add: chunk_element_def)

lemma fill_loop:
  assumes "length array = N" "k < N"
  shows "filled N (take k array) (try_for_each (chunk_element N p) xs (array, k))
    (next_n (N - k) \<lparr>source = xs, predicate = p\<rparr>)"
  using assms
proof (induction xs arbitrary: array k)
  case Nil
  then show ?case by (simp add: filled_def next_n_nil)
next
  case (Cons x xs)
  let ?array = "array[k := Some x]"
  have array: "length ?array = N" "take k ?array = take k array" using Cons.prems by simp_all
  show ?case
  proof (cases "p x")
    case False
    then show ?thesis
      using Cons.IH [OF array(1) Cons.prems(2)] Cons.prems array(2)
      by (simp add: chunk_element_inside next_n_rejected)
  next
    case True
    have pre: "take (Suc k) ?array = take k array @ [Some x]"
      using Cons.prems array by (simp add: take_Suc_conv_app_nth)
    have n: "N - k = Suc (N - Suc k)" using Cons.prems(2) by simp
    show ?thesis
    proof (cases "Suc k < N")
      case more: True
      have "filled N (take (Suc k) ?array) (try_for_each (chunk_element N p) xs (?array, Suc k))
          (next_n (N - Suc k) \<lparr>source = xs, predicate = p\<rparr>)"
        by (rule Cons.IH [OF array(1) more])
      moreover obtain ys it where "next_n (N - Suc k) \<lparr>source = xs, predicate = p\<rparr> = (ys, it)" by fastforce
      ultimately show ?thesis
        using True more Cons.prems
        by (simp add: chunk_element_inside n next_n_accepted pre filled_cons del: next_n.simps)
    next
      case False
      then have "N = Suc k" using Cons.prems(2) by simp
      then show ?thesis
        using True Cons.prems pre
        by (simp add: chunk_element_inside next_filter_cons filled_def)
    qed
  qed
qed

lemma next_n_predicate: "predicate (snd (next_n n it)) = predicate it"
  by (induction n it rule: next_n.induct) (auto simp: next_filter_def split: prod.splits option.splits)

lemma dropless_positive:
  assumes "documented_finish finish" "0 < N"
  shows "chunk_by next_chunk_dropless finish N it = Inr (next_chunk_spec N it)"
proof -
  obtain ys it' where n: "next_n N \<lparr>source = source it, predicate = predicate it\<rparr> = (ys, it')" by fastforce
  have "filled N [] (next_chunk_dropless N (predicate it) (source it)) (ys, it')"
    using fill_loop [of "replicate N None" N 0 "predicate it" "source it"] assms(2) n
    by (simp add: next_chunk_dropless_def Let_def)
  then obtain rest array k full where r:
      "next_chunk_dropless N (predicate it) (source it) = Inr (rest, (array, k), full)"
      "source it' = rest" "length array = N" "k = length ys" "take k array = map Some ys" "full = (k = N)"
    by (auto simp: filled_def split: sum.splits prod.splits)
  have it': "it' = it\<lparr>source := rest\<rparr>"
    using next_n_predicate [of N it] n r(2) by (cases it; cases it') simp
  have "map the (take k array) = ys" unfolding r(5) by (simp add: comp_def)
  then have "finish full (array, k) = (if length ys = N then Ok ys else Err ys)"
    using assms(1) r(3,4,6) by (auto simp: documented_finish_def)
  then show ?thesis
    using n r(1) it' by (cases it) (simp add: chunk_by_def next_chunk_spec_def)
qed

lemma dropless_zero:
  "chunk_by next_chunk_dropless finish 0 it =
     (if source it = [] then Inr (finish False ([], 0), it) else Inl UndefinedBehavior)"
  by (cases it; cases "source it")
     (simp_all add: chunk_by_def next_chunk_dropless_def chunk_element_def Let_def)

lemma patched_zero:
  "documented_finish finish \<Longrightarrow> chunk_by next_chunk_patched finish 0 it = Inr (Ok [], it)"
  by (cases it) (simp add: chunk_by_def next_chunk_patched_def documented_finish_def)

text \<open>C19. A chunk of \<open>N\<close> elements of a filter is what \<open>N\<close> calls of \<open>next\<close> give, and leaves the
  same iterator: for the patched loop with every \<open>N\<close>, for the loop without the patch with
  every \<open>N\<close> above 0. The loop without the patch writes outside its array exactly for an empty
  chunk of a source that has an element, whatever the predicate.\<close>

theorem next_chunk_refined:
  assumes "documented_finish finish"
  shows "chunk_by next_chunk_patched finish N it = Inr (next_chunk_spec N it) \<and>
    (if 0 < N then chunk_by next_chunk_dropless finish N it = Inr (next_chunk_spec N it)
     else (chunk_by next_chunk_dropless finish N it = Inl UndefinedBehavior) = (source it \<noteq> []))"
proof (cases "0 < N")
  case True
  then have "chunk_by next_chunk_patched finish N it = chunk_by next_chunk_dropless finish N it"
    by (simp add: chunk_by_def next_chunk_patched_def)
  then show ?thesis using True dropless_positive [OF assms] by simp
next
  case False
  then show ?thesis
    using patched_zero [OF assms] by (simp add: dropless_zero next_chunk_spec_def)
qed

text \<open>The end of the loop as it is documented.\<close>

definition finish_chunk :: "bool \<Rightarrow> 'a chunk_state \<Rightarrow> ('a list, 'a list) result" where
  "finish_chunk full s = (case s of (array, k) \<Rightarrow>
     if full then Ok (map the array) else Err (map the (take k array)))"

lemma finish_chunk_documented: "documented_finish finish_chunk"
  by (simp add: documented_finish_def finish_chunk_def)

theorem next_chunk_refined_witness:
  "chunk_by next_chunk_patched finish_chunk 2 \<lparr>source = [1, 3, 2, 5, 4 :: int], predicate = (\<lambda>x. 2 < x)\<rparr> =
     Inr (Ok [3, 5], \<lparr>source = [4], predicate = (\<lambda>x. 2 < x)\<rparr>)"
  using next_chunk_refined [OF finish_chunk_documented, of 2 "\<lparr>source = [1, 3, 2, 5, 4 :: int], predicate = (\<lambda>x. 2 < x)\<rparr>"]
  by (simp add: next_chunk_spec_def numeral_2_eq_2 next_filter_cons)

text \<open>
  183 ends normally exactly when the empty chunk is returned and the first element is gone;
  with the patched library its last assertion fails. 184 asserts nothing.
\<close>

lemma main_183_outcome:
  "exit_of (main_183 nc) = Exited 0 \<longleftrightarrow>
     (case nc 0 it_183 of Inr (chunk, it) \<Rightarrow> chunk = Ok [] \<and> fst (next_filter it) = Some 20 | Inl _ \<Rightarrow> False)"
  by (auto simp: main_183_def exit_simps split: sum.splits prod.splits)

lemma main_183_patched:
  "exit_of (main_183 (chunk_by next_chunk_patched finish_chunk)) = Panicked AssertFailed"
  using patched_zero [OF finish_chunk_documented, of it_183]
  by (simp add: main_183_def it_183_def next_filter_cons exit_simps)

lemma main_183_unpatched:
  "exit_of (main_183 (chunk_by next_chunk_dropless finish_chunk)) = Panicked UndefinedBehavior"
  by (simp add: main_183_def dropless_zero exit_simps) (simp add: it_183_def)

lemma main_184_outcome:
  "exit_of (main_184 nc) = (case nc 0 it_184 of Inl e \<Rightarrow> Panicked e | Inr _ \<Rightarrow> Exited 0)"
  by (auto simp: main_184_def exit_simps split: sum.split)

section \<open>Reflection of a type (098)\<close>

text \<open>
  The types the program names, with their lifetimes. The type information is an argument: what
  \<open>Type::of\<close> says a type is, with the parameters of a generic one, and \<open>TypeId::of\<close>. The code
  looks for a struct and for a type parameter; other kinds of either are one constructor here.
\<close>

datatype lifetime = Static | Local

datatype rust_type = U8 | Reference lifetime rust_type | Wrap rust_type

datatype 'id generic = GenericType 'id | OtherGeneric

datatype 'id type_kind = Struct "'id generic list" | OtherKind

definition leak_id :: "(rust_type \<Rightarrow> 'id type_kind) \<Rightarrow> lifetime \<Rightarrow> 'id run" where
  "leak_id type_of a =
     (case type_of (Wrap (Reference a U8)) of
        Struct generics \<Rightarrow> bind_run (index_run generics 0) (\<lambda>g. case g of
            GenericType ty \<Rightarrow> Inr ty
          | OtherGeneric \<Rightarrow> Inl Unreachable)
      | OtherKind \<Rightarrow> Inl Unreachable)"

definition main_098 :: "(rust_type \<Rightarrow> 'id type_kind) \<Rightarrow> (rust_type \<Rightarrow> 'id) \<Rightarrow> unit io" where
  "main_098 type_of type_id =
     lift_run (leak_id type_of Local) (\<lambda>id.
       (let static_id = type_id (Reference Static U8)
        in block [println [VBool (id = static_id)], println []]))"

text \<open>
  The library erases lifetimes, and a wrapper is a struct with the identifier of what it wraps.
\<close>

locale type_reflection =
  fixes type_of :: "rust_type \<Rightarrow> 'id type_kind"
    and type_id :: "rust_type \<Rightarrow> 'id"
  assumes wrapper: "type_of (Wrap t) = Struct [GenericType (type_id t)]"
    and erased: "type_id (Reference a t) = type_id (Reference b t)"
begin

lemma leaked: "leak_id type_of a = Inr (type_id (Reference Static U8))"
  using erased [of a U8 Static] by (simp add: leak_id_def wrapper index_run_def)

lemma reported: "run_main (main_098 type_of type_id) = ([[VBool True], []], Exited 0)"
  by (simp add: main_098_def leaked println_def)

end

fun erase :: "rust_type \<Rightarrow> rust_type" where
  "erase U8 = U8"
| "erase (Reference a t) = Reference Static (erase t)"
| "erase (Wrap t) = Wrap (erase t)"

definition erased_kind :: "rust_type \<Rightarrow> rust_type type_kind" where
  "erased_kind t = (case t of Wrap u \<Rightarrow> Struct [GenericType (erase u)] | _ \<Rightarrow> OtherKind)"

interpretation erasing: type_reflection erased_kind erase
  by unfold_locales (simp_all add: erased_kind_def)

lemma main_098_outcome: "run_main (main_098 erased_kind erase) = ([[VBool True], []], Exited 0)"
  by (rule erasing.reported)

end
