(* ===== verification/Publication.thy ===== *)
theory Publication
  imports Transitions
begin

text \<open>
  Data shared without synchronisation: the environment pointer that is published with a
  relaxed store (103), and the shared slice over memory that another thread writes (071).
  Both are step relations over single memory accesses. The first keeps the stores a thread
  has issued in a buffer from which they reach memory out of order, as relaxed stores may,
  and the values memory has held, since reads may be performed before a relaxed load.
\<close>

section \<open>The published pointer (103)\<close>

text \<open>The words of memory that matter: the static pointer and the fields of the boxed struct.\<close>

datatype word_103 = ENV | Inner_a | Inner_b | Inner_c | Inner_d

record store_103 =
  target :: word_103
  stored :: u64
  order :: mem_order

definition plain_store :: "word_103 \<Rightarrow> u64 \<Rightarrow> store_103" where
  "plain_store w x = \<lparr>target = w, stored = x, order = Relaxed\<rparr>"

text \<open>
  The stores of \<open>call_once\<close>, in program order: the four fields of the box at address \<open>p\<close>,
  then the pointer with the ordering \<open>ord\<close>. The code uses \<open>Relaxed\<close>. The load that follows
  in \<open>create_buggy\<close> returns the thread's own store, and the reference made of it reads no
  field, so neither is a step.
\<close>

definition publish :: "mem_order \<Rightarrow> u64 \<Rightarrow> store_103 list" where
  "publish ord p =
     [plain_store Inner_a 1, plain_store Inner_b 2, plain_store Inner_c 3, plain_store Inner_d 4,
      \<lparr>target = ENV, stored = p, order = ord\<rparr>]"

definition create_buggy :: "u64 \<Rightarrow> store_103 list" where
  "create_buggy p = publish Relaxed p"

text \<open>
  The reader polls at most \<open>100_000\<close> times; on a non-null pointer it reads the four fields
  in order and leaves the loop. \<open>Reading\<close> carries the fields still to read and what was read.
\<close>

datatype reader_103 = Polling nat | Reading "word_103 list" "u64 list"

definition read_buggy :: "(word_103 \<Rightarrow> u64) \<Rightarrow> u64 option" where
  "read_buggy mem = (if mem ENV = 0 then None else Some (mem ENV))"

text \<open>
  The reads of the fields follow the load of the pointer in the program, and only an acquiring
  load keeps them there. After another load a field may have been read earlier, so reading it
  gives its present value or one it had before: \<open>past\<close> holds those, and an acquiring load
  forgets them. That the address comes from the load orders nothing in the language. \<open>i\<close>
  selects the value read. The code uses \<open>Relaxed\<close>.
\<close>

definition after_load :: "mem_order \<Rightarrow> (word_103 \<Rightarrow> u64 list) \<Rightarrow> word_103 \<Rightarrow> u64 list" where
  "after_load load_ord past = (if load_ord = Acquire then \<lambda>_. [] else past)"

fun step_reader ::
  "mem_order \<Rightarrow> nat \<Rightarrow> (word_103 \<Rightarrow> u64) \<Rightarrow> (word_103 \<Rightarrow> u64 list) \<Rightarrow> reader_103 \<Rightarrow>
   ((word_103 \<Rightarrow> u64 list) \<times> reader_103) option" where
  "step_reader load_ord i mem past (Polling 0) = None"
| "step_reader load_ord i mem past (Polling (Suc n)) =
     Some (after_load load_ord past,
       case read_buggy mem of
         None \<Rightarrow> Polling n
       | Some r \<Rightarrow> Reading [Inner_a, Inner_b, Inner_c, Inner_d] [])"
| "step_reader load_ord i mem past (Reading [] vs) = None"
| "step_reader load_ord i mem past (Reading (w # ws) vs) =
     (let values = mem w # past w in
      if i < length values then Some (past, Reading ws (vs @ [values ! i])) else None)"

record state_103 =
  memory :: "word_103 \<Rightarrow> u64"
  past :: "word_103 \<Rightarrow> u64 list"
  to_issue :: "store_103 list"
  pending :: "store_103 list"
  reader :: reader_103

definition commit_store :: "store_103 \<Rightarrow> state_103 \<Rightarrow> state_103" where
  "commit_store st s =
     (let w = target st in
      s\<lparr>memory := (memory s)(w := stored st), past := (past s)(w := memory s w # past s w)\<rparr>)"

text \<open>
  A pending store may become visible before earlier ones to other words; a store with
  \<open>Release\<close> only after all that precede it.
\<close>

inductive step_103 :: "mem_order \<Rightarrow> state_103 \<Rightarrow> state_103 \<Rightarrow> bool" for load_ord :: mem_order where
  issue: "to_issue s = st # sts \<Longrightarrow>
    step_103 load_ord s (s\<lparr>to_issue := sts, pending := pending s @ [st]\<rparr>)"
| commit: "pending s = before @ st # after \<Longrightarrow> target st \<notin> target ` set before \<Longrightarrow>
    order st = Release \<longrightarrow> before = [] \<Longrightarrow>
    step_103 load_ord s (commit_store st (s\<lparr>pending := before @ after\<rparr>))"
| read: "step_reader load_ord i (memory s) (past s) (reader s) = Some (old, r) \<Longrightarrow>
    step_103 load_ord s (s\<lparr>past := old, reader := r\<rparr>)"

lemma commit_store_simps [simp]:
  "memory (commit_store st s) = (memory s)(target st := stored st)"
  "past (commit_store st s) = (past s)(target st := memory s (target st) # past s (target st))"
  "to_issue (commit_store st s) = to_issue s"
  "pending (commit_store st s) = pending s"
  "reader (commit_store st s) = reader s"
  by (simp_all add: commit_store_def Let_def)

text \<open>\<open>main\<close> at the start: the pointer is null, the heap holds anything.\<close>

definition init_103 :: "store_103 list \<Rightarrow> (word_103 \<Rightarrow> u64) \<Rightarrow> state_103" where
  "init_103 stores heap =
     \<lparr>memory = heap(ENV := 0), past = (\<lambda>_. []), to_issue = stores, pending = [], reader = Polling 100000\<rparr>"

text \<open>The program prints its line when both threads have nothing left to do.\<close>

definition reader_done :: "reader_103 \<Rightarrow> bool" where
  "reader_done rd = (case rd of Polling n \<Rightarrow> n = 0 | Reading ws vs \<Rightarrow> ws = [])"

definition joined_103 :: "state_103 \<Rightarrow> bool" where
  "joined_103 s \<longleftrightarrow> to_issue s = [] \<and> reader_done (reader s)"

definition main_103 :: "state_103 \<Rightarrow> unit io option" where
  "main_103 s = (if joined_103 s then Some (println []) else None)"

section \<open>What the reader can see\<close>

definition field_value :: "word_103 \<Rightarrow> u64" where
  "field_value w = (case w of ENV \<Rightarrow> 0 | Inner_a \<Rightarrow> 1 | Inner_b \<Rightarrow> 2 | Inner_c \<Rightarrow> 3 | Inner_d \<Rightarrow> 4)"

definition inner_words :: "word_103 list" where
  "inner_words = [Inner_a, Inner_b, Inner_c, Inner_d]"

definition field_store :: "word_103 \<Rightarrow> store_103" where
  "field_store w = plain_store w (field_value w)"

lemma target_field_store [simp]: "target (field_store w) = w"
  and stored_field_store [simp]: "stored (field_store w) = field_value w"
  and order_field_store [simp]: "order (field_store w) = Relaxed"
  by (simp_all add: field_store_def plain_store_def)

lemma publish_eq:
  "publish ord p = map field_store inner_words @ [\<lparr>target = ENV, stored = p, order = ord\<rparr>]"
  by (simp add: publish_def inner_words_def field_store_def field_value_def)

lemma ENV_inner [simp]: "ENV \<notin> set inner_words" "distinct inner_words"
  by (simp_all add: inner_words_def)

text \<open>The stores on their way, and what a complete read of the fields can return.\<close>

definition in_flight :: "state_103 \<Rightarrow> store_103 list" where
  "in_flight s = pending s @ to_issue s"

definition reads_103 :: "mem_order \<Rightarrow> store_103 list \<Rightarrow> (word_103 \<Rightarrow> u64) \<Rightarrow> u64 list \<Rightarrow> bool" where
  "reads_103 load_ord stores heap vs \<longleftrightarrow>
     (\<exists>s. (step_103 load_ord)\<^sup>*\<^sup>* (init_103 stores heap) s \<and> reader s = Reading [] vs)"

text \<open>
  Under any ordering a field holds its old or its final value, and so does every value read.
\<close>

definition old_or_final :: "(word_103 \<Rightarrow> u64) \<Rightarrow> word_103 \<Rightarrow> u64 \<Rightarrow> bool" where
  "old_or_final heap w x \<longleftrightarrow> x = heap w \<or> x = field_value w"

definition mixed_inv :: "(word_103 \<Rightarrow> u64) \<Rightarrow> state_103 \<Rightarrow> bool" where
  "mixed_inv heap s \<longleftrightarrow>
     (\<forall>st \<in> set (in_flight s). target st \<noteq> ENV \<longrightarrow> stored st = field_value (target st)) \<and>
     (\<forall>w \<in> set inner_words. \<forall>x \<in> set (memory s w # past s w). old_or_final heap w x) \<and>
     (case reader s of
        Polling n \<Rightarrow> True
      | Reading ws vs \<Rightarrow> \<exists>rs. inner_words = rs @ ws \<and> list_all2 (old_or_final heap) rs vs)"

lemma poll_step:
  assumes "step_reader load_ord i mem seen (Polling n) = Some (old, r)"
  obtains k where "n = Suc k" "old = after_load load_ord seen"
    "r = (if mem ENV = 0 then Polling k else Reading inner_words [])"
  using assms by (cases n) (auto simp: read_buggy_def inner_words_def)

lemma field_step:
  assumes "step_reader load_ord i mem seen (Reading ws vs) = Some (old, r)"
  obtains w ws' x where "ws = w # ws'" "old = seen" "r = Reading ws' (vs @ [x])" "x \<in> set (mem w # seen w)"
proof (cases ws)
  case (Cons w ws')
  then show ?thesis
    using assms nth_mem [of i "mem w # seen w"] by (intro that) (auto simp: Let_def split: if_splits)
qed (use assms in simp)

lemma mixed_inv_step: "step_103 load_ord s s' \<Longrightarrow> mixed_inv heap s \<Longrightarrow> mixed_inv heap s'"
proof (induction rule: step_103.induct)
  case (issue s st sts)
  then show ?case by (simp add: mixed_inv_def in_flight_def)
next
  case (commit s before st after)
  then show ?case
    by (auto simp: mixed_inv_def in_flight_def old_or_final_def)
next
  case (read i s old r)
  show ?case
  proof (cases "reader s")
    case (Polling n)
    show ?thesis
    proof -
      obtain k where "n = Suc k" "old = after_load load_ord (past s)"
          "r = (if memory s ENV = 0 then Polling k else Reading inner_words [])"
        by (rule poll_step [OF read.hyps [unfolded Polling]])
      then show ?thesis
        using read.prems by (simp add: mixed_inv_def in_flight_def after_load_def)
    qed
  next
    case (Reading ws vs)
    obtain w ws' x where ws: "ws = w # ws'" "old = past s" "r = Reading ws' (vs @ [x])"
        "x \<in> set (memory s w # past s w)"
      by (rule field_step [OF read.hyps [unfolded Reading]])
    obtain rs where rs: "inner_words = rs @ w # ws'" "list_all2 (old_or_final heap) rs vs"
      using read.prems Reading ws by (auto simp: mixed_inv_def)
    have "w \<in> set inner_words" unfolding rs(1) by simp
    with rs(2) have "list_all2 (old_or_final heap) (rs @ [w]) (vs @ [x])"
      using read.prems ws(4) by (intro list_all2_appendI) (auto simp: mixed_inv_def)
    moreover have "inner_words = (rs @ [w]) @ ws'" using rs(1) by simp
    ultimately show ?thesis
      using read.prems ws(2,3) by (auto simp: mixed_inv_def in_flight_def simp del: append_assoc)
  qed
qed

interpretation relaxed: step_invariant "step_103 load_ord" "mixed_inv heap"
  by unfold_locales (rule mixed_inv_step)

lemma mixed_inv_reachable:
  "(step_103 load_ord)\<^sup>*\<^sup>* (init_103 (publish ord p) heap) s \<Longrightarrow> mixed_inv heap s"
  by (erule relaxed.reachable)
    (auto simp: mixed_inv_def init_103_def in_flight_def publish_eq old_or_final_def inner_words_def)

text \<open>
  With a releasing publication the pointer is the last store to become visible: as long as
  anything is in flight the reader is polling a null pointer, and a field that is not in
  flight is final. With an acquiring load as well, the old values are forgotten when the
  reader has seen the pointer.
\<close>

definition release_inv :: "u64 \<Rightarrow> state_103 \<Rightarrow> bool" where
  "release_inv p s \<longleftrightarrow>
     (\<forall>w \<in> set inner_words. w \<notin> target ` set (in_flight s) \<longrightarrow> memory s w = field_value w) \<and>
     (case reader s of
        Polling n \<Rightarrow> in_flight s = [] \<or> memory s ENV = 0 \<and>
          (\<exists>ws. distinct ws \<and> set ws \<subseteq> set inner_words \<and>
             in_flight s = map field_store ws @ [\<lparr>target = ENV, stored = p, order = Release\<rparr>])
      | Reading ws vs \<Rightarrow> in_flight s = [] \<and> past s = (\<lambda>_. []) \<and>
          (\<exists>rs. inner_words = rs @ ws \<and> vs = map field_value rs))"

lemma split_field_stores:
  assumes "before @ st # rest = map field_store ws @ [e]" "st \<noteq> e" "distinct ws"
  obtains w us vs where "st = field_store w" "ws = us @ w # vs" "before @ rest = map field_store (us @ vs) @ [e]"
proof -
  obtain rest' where r: "rest = rest' @ [e]"
    using assms(1,2) by (cases rest rule: rev_cases) auto
  then have m: "map field_store ws = before @ st # rest'" using assms(1) by simp
  obtain us zs where u: "ws = us @ zs" "map field_store us = before" "map field_store zs = st # rest'"
    using map_eq_append_conv [THEN iffD1, OF m] by (elim exE conjE) (rule that; simp)
  from u(3) obtain w vs where w: "zs = w # vs" "st = field_store w" "rest' = map field_store vs"
    by (cases zs) auto
  have "before @ rest = map field_store (us @ vs) @ [e]"
    unfolding r u(2) [symmetric] w(3) map_append append_assoc by (rule refl)
  moreover have "ws = us @ w # vs" unfolding u(1) w(1) by (rule refl)
  ultimately show ?thesis using that w(2) by blast
qed

lemma release_inv_step: "step_103 Acquire s s' \<Longrightarrow> p \<noteq> 0 \<Longrightarrow> release_inv p s \<Longrightarrow> release_inv p s'"
proof (induction rule: step_103.induct)
  case (issue s st sts)
  then show ?case
    by (simp add: release_inv_def in_flight_def split: reader_103.splits)
next
  case (commit s before st after)
  let ?e = "\<lparr>target = ENV, stored = p, order = Release\<rparr>" and ?rest = "after @ to_issue s"
  obtain n where n: "reader s = Polling n"
    using commit by (cases "reader s") (auto simp: release_inv_def in_flight_def)
  obtain ws where ws: "memory s ENV = 0" "distinct ws" "set ws \<subseteq> set inner_words"
      "before @ st # ?rest = map field_store ws @ [?e]"
    using commit.prems(2) commit.hyps(1) n by (auto simp: release_inv_def in_flight_def)
  have final: "memory s w = field_value w" if "w \<in> set inner_words" "w \<notin> target ` set (before @ st # ?rest)" for w
    using that commit.prems(2) commit.hyps(1) by (simp add: release_inv_def in_flight_def)
  show ?case
  proof (cases "st = ?e")
    case True
    then have "before = []" using commit.hyps(3) by simp
    moreover from this have "ws = []" using ws(3,4) True by (cases ws) (auto simp: field_store_def plain_store_def)
    ultimately have "before = []" "?rest = []" using ws(4) True by auto
    then show ?thesis using final True n by (auto simp: release_inv_def in_flight_def)
  next
    case False
    then obtain w us vs where split: "st = field_store w" "ws = us @ w # vs"
        "before @ ?rest = map field_store (us @ vs) @ [?e]"
      using split_field_stores [OF ws(4) False ws(2)] by blast
    have "w \<noteq> ENV" using ws(3) split(2) by auto
    moreover have "x \<notin> target ` set (before @ st # ?rest)"
      if "x \<noteq> w" "x \<notin> target ` set (before @ ?rest)" for x
      using that split(1) by auto
    moreover have "\<exists>ws'. distinct ws' \<and> set ws' \<subseteq> set inner_words \<and> before @ ?rest = map field_store ws' @ [?e]"
      using ws(2,3) split(2,3) by (intro exI [of _ "us @ vs"]) auto
    ultimately show ?thesis
      using final ws(1) split(1) n by (auto simp: release_inv_def in_flight_def)
  qed
next
  case (read i s old r)
  show ?case
  proof (cases "reader s")
    case (Polling n)
    obtain k where k: "n = Suc k" "old = (\<lambda>_. [])" "r = (if memory s ENV = 0 then Polling k else Reading inner_words [])"
      by (rule poll_step [OF read.hyps [unfolded Polling]]) (simp add: after_load_def)
    have "in_flight s = []" if "memory s ENV \<noteq> 0"
      using that read.prems(2) Polling by (simp add: release_inv_def)
    then show ?thesis
      using read.prems(2) Polling unfolding release_inv_def k by (cases "memory s ENV = 0") (simp_all add: in_flight_def)
  next
    case (Reading ws vs)
    obtain w ws' x where ws: "ws = w # ws'" "old = past s" "r = Reading ws' (vs @ [x])"
        "x \<in> set (memory s w # past s w)"
      by (rule field_step [OF read.hyps [unfolded Reading]])
    obtain rs where rs: "inner_words = rs @ w # ws'" "vs = map field_value rs"
        and f: "in_flight s = []" "past s = (\<lambda>_. [])"
      using read.prems Reading ws by (auto simp: release_inv_def)
    have "w \<in> set inner_words" unfolding rs(1) by simp
    then have "x = field_value w" using read.prems f ws(4) by (simp add: release_inv_def)
    then have "\<exists>rs. inner_words = rs @ ws' \<and> vs @ [x] = map field_value rs"
      using rs by (intro exI [of _ "rs @ [w]"]) simp
    then show ?thesis
      using read.prems(2) f unfolding release_inv_def in_flight_def ws(2,3) by simp
  qed
qed

text \<open>The address of the box is not null, which the invariant carries along.\<close>

interpretation releasing: step_invariant "step_103 Acquire" "\<lambda>s. p \<noteq> 0 \<and> release_inv p s"
  by unfold_locales (use release_inv_step in blast)

lemma release_inv_reachable:
  assumes "(step_103 Acquire)\<^sup>*\<^sup>* (init_103 (publish Release p) heap) s" "p \<noteq> 0"
  shows "release_inv p s"
proof -
  have "in_flight (init_103 (publish Release p) heap) =
      map field_store inner_words @ [\<lparr>target = ENV, stored = p, order = Release\<rparr>]"
    by (simp add: in_flight_def init_103_def publish_eq)
  moreover have "x \<in> target ` set (map field_store inner_words @ [e])" if "x \<in> set inner_words" for x e
    using that by force
  ultimately have "release_inv p (init_103 (publish Release p) heap)"
    by (auto simp: release_inv_def init_103_def intro!: exI [of _ inner_words])
  then show ?thesis using releasing.reachable [OF assms(1)] assms(2) by blast
qed

text \<open>Runs: issue everything, make the pointer visible first, then read at will.\<close>

lemma issue_all:
  "(step_103 load_ord)\<^sup>*\<^sup>* s (s\<lparr>to_issue := [], pending := pending s @ to_issue s\<rparr>)"
proof (induction "to_issue s" arbitrary: s)
  case (Cons st sts)
  let ?s = "s\<lparr>to_issue := sts, pending := pending s @ [st]\<rparr>"
  have "step_103 load_ord s ?s" using Cons.hyps(2) by (intro step_103.issue) simp
  moreover have "(step_103 load_ord)\<^sup>*\<^sup>* ?s (s\<lparr>to_issue := [], pending := pending s @ to_issue s\<rparr>)"
    using Cons.hyps(1) [of ?s] Cons.hyps(2) [symmetric] by simp
  ultimately show ?case by (rule converse_rtranclp_into_rtranclp)
next
  case Nil
  then show ?case by (cases s) simp
qed

lemma poll_published:
  "0 < n \<Longrightarrow> mem ENV \<noteq> 0 \<Longrightarrow>
   step_reader load_ord i mem seen (Polling n) = Some (after_load load_ord seen, Reading inner_words [])"
  by (cases n) (simp_all add: read_buggy_def inner_words_def)

text \<open>A read may take the present value, or any that is remembered.\<close>

lemma read_present:
  assumes "reader s = Reading (w # ws) rs" "v \<in> set (memory s w # past s w)"
  shows "step_103 load_ord s (s\<lparr>reader := Reading ws (rs @ [v])\<rparr>)"
proof -
  obtain i where i: "i < length (memory s w # past s w)" "(memory s w # past s w) ! i = v"
    using assms(2) by (meson in_set_conv_nth)
  then have "step_reader load_ord i (memory s) (past s) (reader s) = Some (past s, Reading ws (rs @ [v]))"
    unfolding assms(1) by (simp del: nth_Cons_Suc)
  from step_103.read [of load_ord i s, OF this] show ?thesis by simp
qed

lemma read_mixed:
  assumes "list_all2 (old_or_final heap) ws vs" "distinct ws" "\<forall>w \<in> set ws. memory s w = heap w"
    and "reader s = Reading ws rs" "pending s = before @ map field_store ws" "target ` set before \<inter> set ws = {}"
  shows "\<exists>s'. (step_103 load_ord)\<^sup>*\<^sup>* s s' \<and> reader s' = Reading [] (rs @ vs)"
  using assms
proof (induction ws vs arbitrary: s rs before rule: list_all2_induct)
  case Nil
  then show ?case by auto
next
  case (Cons w ws v vs)
  show ?case
  proof (cases "v = heap w")
    case True
    let ?s = "s\<lparr>reader := Reading ws (rs @ [v])\<rparr>"
    have "step_103 load_ord s ?s" using Cons.prems True by (intro read_present) auto
    moreover have "\<exists>s'. (step_103 load_ord)\<^sup>*\<^sup>* ?s s' \<and> reader s' = Reading [] ((rs @ [v]) @ vs)"
      using Cons.prems by (intro Cons.IH [where before = "before @ [field_store w]"]) auto
    ultimately show ?thesis by (auto intro: converse_rtranclp_into_rtranclp)
  next
    case False
    then have v: "v = field_value w" using Cons.hyps(1) by (simp add: old_or_final_def)
    let ?m = "commit_store (field_store w) (s\<lparr>pending := before @ map field_store ws\<rparr>)"
    let ?s = "?m\<lparr>reader := Reading ws (rs @ [v])\<rparr>"
    have "step_103 load_ord s ?m"
      using Cons.prems by (intro step_103.commit) auto
    moreover have "step_103 load_ord ?m ?s" using Cons.prems v by (intro read_present) auto
    moreover have "\<exists>s'. (step_103 load_ord)\<^sup>*\<^sup>* ?s s' \<and> reader s' = Reading [] ((rs @ [v]) @ vs)"
      using Cons.prems by (intro Cons.IH [where before = before]) auto
    ultimately show ?thesis by (auto intro: converse_rtranclp_into_rtranclp)
  qed
qed

lemma unordered_stores_read:
  assumes "p \<noteq> 0" "store_ord \<noteq> Release" "list_all2 (old_or_final heap) inner_words vs"
  shows "reads_103 load_ord (publish store_ord p) heap vs"
proof -
  let ?e = "\<lparr>target = ENV, stored = p, order = store_ord\<rparr>"
  let ?i = "init_103 (publish store_ord p) heap" and ?f = "map field_store inner_words"
  let ?a = "?i\<lparr>to_issue := [], pending := publish store_ord p\<rparr>"
  let ?b = "commit_store ?e (?a\<lparr>pending := ?f\<rparr>)"
  let ?c = "?b\<lparr>past := after_load load_ord (past ?b), reader := Reading inner_words []\<rparr>"
  have "(step_103 load_ord)\<^sup>*\<^sup>* ?i ?a" using issue_all [of load_ord ?i] by (simp add: init_103_def)
  moreover have "step_103 load_ord ?a ?b"
    using step_103.commit [of ?a ?f ?e "[]" load_ord] assms(2)
    by (simp add: publish_eq image_image)
  moreover have "step_103 load_ord ?b ?c"
    using assms(1) by (intro step_103.read poll_published) (simp_all add: init_103_def poll_published)
  moreover have "\<exists>s'. (step_103 load_ord)\<^sup>*\<^sup>* ?c s' \<and> reader s' = Reading [] ([] @ vs)"
    by (rule read_mixed [OF assms(3), where before = "[]"]) (auto simp: inner_words_def init_103_def)
  ultimately show ?thesis
    unfolding reads_103_def append_Nil by (meson rtranclp.rtrancl_into_rtrancl rtranclp_trans)
qed

lemma pending_commit_store: "(commit_store st s)\<lparr>pending := sts\<rparr> = commit_store st (s\<lparr>pending := sts\<rparr>)"
  by (simp add: commit_store_def Let_def)

lemma commit_all:
  "(step_103 load_ord)\<^sup>*\<^sup>* s (fold commit_store (pending s) (s\<lparr>pending := []\<rparr>))"
proof (induction "pending s" arbitrary: s)
  case Nil
  then show ?case by (cases s) simp
next
  case (Cons st sts)
  let ?s = "commit_store st (s\<lparr>pending := sts\<rparr>)"
  have "step_103 load_ord s ?s"
    using step_103.commit [of s "[]" st sts load_ord] Cons.hyps(2) by simp
  moreover have "(step_103 load_ord)\<^sup>*\<^sup>* ?s (fold commit_store (pending s) (s\<lparr>pending := []\<rparr>))"
    using Cons.hyps(1) [of ?s] Cons.hyps(2) [symmetric] by (simp add: pending_commit_store)
  ultimately show ?case by (rule converse_rtranclp_into_rtranclp)
qed

lemma read_all:
  assumes "list_all2 (\<lambda>w v. v \<in> set (memory s w # past s w)) ws vs" "reader s = Reading ws rs"
  shows "(step_103 load_ord)\<^sup>*\<^sup>* s (s\<lparr>reader := Reading [] (rs @ vs)\<rparr>)"
  using assms
proof (induction ws arbitrary: s rs vs)
  case Nil
  then show ?case by (cases s) simp
next
  case (Cons w ws)
  then obtain v vs' where vs: "vs = v # vs'" "v \<in> set (memory s w # past s w)"
      "list_all2 (\<lambda>w v. v \<in> set (memory s w # past s w)) ws vs'"
    by (auto simp: list_all2_Cons1)
  let ?s = "s\<lparr>reader := Reading ws (rs @ [v])\<rparr>"
  have "step_103 load_ord s ?s" using Cons.prems(2) vs(2) by (rule read_present)
  moreover have "(step_103 load_ord)\<^sup>*\<^sup>* ?s (s\<lparr>reader := Reading [] (rs @ vs)\<rparr>)"
    using Cons.IH [of ?s vs' "rs @ [v]"] vs by simp
  ultimately show ?case by (rule converse_rtranclp_into_rtranclp)
qed

text \<open>When no store overtakes another, the reader sees the final values, and without an
  acquiring load the old ones as well.\<close>

lemma ordered_stores_read:
  assumes "p \<noteq> 0"
    and "list_all2 (\<lambda>w v. v = field_value w \<or> load_ord \<noteq> Acquire \<and> v = heap w) inner_words vs"
  shows "reads_103 load_ord (publish store_ord p) heap vs"
proof -
  let ?i = "init_103 (publish store_ord p) heap"
  let ?a = "?i\<lparr>to_issue := [], pending := publish store_ord p\<rparr>"
  let ?b = "fold commit_store (publish store_ord p) (?a\<lparr>pending := []\<rparr>)"
  let ?c = "?b\<lparr>past := after_load load_ord (past ?b), reader := Reading inner_words []\<rparr>"
  have b: "memory ?b ENV = p" "reader ?b = Polling 100000"
    by (simp_all add: publish_def plain_store_def init_103_def)
  have fields: "memory ?b w = field_value w" "past ?b w = [heap w]" if "w \<in> set inner_words" for w
    using that by (auto simp: publish_def plain_store_def init_103_def inner_words_def field_value_def)
  have "(step_103 load_ord)\<^sup>*\<^sup>* ?i ?a" using issue_all [of load_ord ?i] by (simp add: init_103_def)
  moreover have "(step_103 load_ord)\<^sup>*\<^sup>* ?a ?b" using commit_all [of load_ord ?a] by simp
  moreover have "step_103 load_ord ?b ?c"
    using assms(1) b by (intro step_103.read) (simp add: poll_published)
  moreover have "list_all2 (\<lambda>w v. v \<in> set (memory ?c w # past ?c w)) inner_words vs"
    using assms(2) fields by (auto simp: list_all2_conv_all_nth after_load_def)
  then have "(step_103 load_ord)\<^sup>*\<^sup>* ?c (?c\<lparr>reader := Reading [] ([] @ vs)\<rparr>)"
    by (rule read_all) simp
  ultimately have "(step_103 load_ord)\<^sup>*\<^sup>* ?i (?c\<lparr>reader := Reading [] ([] @ vs)\<rparr>)"
    by (meson rtranclp.rtrancl_into_rtrancl rtranclp_trans)
  moreover have "reader (?c\<lparr>reader := Reading [] ([] @ vs)\<rparr>) = Reading [] vs" by simp
  ultimately show ?thesis unfolding reads_103_def by blast
qed

text \<open>Both threads finish: every step uses up a store, a commit, a poll or a read.\<close>

fun reader_fuel :: "reader_103 \<Rightarrow> nat" where
  "reader_fuel (Polling n) = n + 4"
| "reader_fuel (Reading ws vs) = length ws"

definition fuel_103 :: "state_103 \<Rightarrow> nat" where
  "fuel_103 s = 2 * length (to_issue s) + length (pending s) + reader_fuel (reader s)"

lemma fuel_103_step: "step_103 load_ord s s' \<Longrightarrow> fuel_103 s' < fuel_103 s"
proof (induction rule: step_103.induct)
  case (read i s old r)
  have "reader_fuel r < reader_fuel (reader s)"
  proof (cases "reader s")
    case (Polling n)
    show ?thesis
      by (rule poll_step [OF read.hyps [unfolded Polling]]) (simp add: Polling inner_words_def)
  next
    case (Reading ws vs)
    show ?thesis
      by (rule field_step [OF read.hyps [unfolded Reading]]) (simp add: Reading)
  qed
  then show ?case by (simp add: fuel_103_def)
qed (simp_all add: fuel_103_def)

interpretation publication: decreasing_steps "step_103 load_ord" fuel_103
  by unfold_locales (rule fuel_103_step)

lemma run_bounded_103:
  "(step_103 load_ord ^^ k) (init_103 (publish ord p) heap) s \<Longrightarrow> k \<le> 100014"
  using publication.run_bound [of k load_ord "init_103 (publish ord p) heap" s]
  by (simp add: fuel_103_def init_103_def publish_def)

lemma progress_103: "\<not> joined_103 s \<Longrightarrow> \<exists>s'. step_103 load_ord s s'"
proof (cases "to_issue s")
  case Nil
  assume "\<not> joined_103 s"
  then have "\<exists>old r. step_reader load_ord 0 (memory s) (past s) (reader s) = Some (old, r)"
    using Nil by (cases "(load_ord, 0 :: nat, memory s, past s, reader s)" rule: step_reader.cases)
      (auto simp: joined_103_def reader_done_def)
  then show ?thesis using step_103.read by blast
qed (use step_103.issue in blast)

text \<open>C3. If the box is at a non-null address, the relaxed store and loads let the reader see
  any mixture of initialised and uninitialised fields, and nothing else: each of the values it
  reads is the final one or what the heap held before. The same holds for every other choice
  of the two orderings but one: with a releasing store and acquiring loads, as the finding
  asks, every complete read returns the four final values. All this is over all interleavings.\<close>

theorem published_values:
  assumes "p \<noteq> 0"
  shows "reads_103 Relaxed (create_buggy p) heap vs = list_all2 (old_or_final heap) inner_words vs \<and>
    reads_103 load_ord (publish store_ord p) heap vs =
      (if store_ord = Release \<and> load_ord = Acquire then vs = map field_value inner_words
       else list_all2 (old_or_final heap) inner_words vs)"
proof -
  have mixed: "list_all2 (old_or_final heap) inner_words vs" if "reads_103 l (publish ord p) heap vs" for l ord
    using that mixed_inv_reachable by (fastforce simp: reads_103_def mixed_inv_def)
  have final: "vs = map field_value inner_words" if "reads_103 Acquire (publish Release p) heap vs"
    using that release_inv_reachable [OF _ assms] by (fastforce simp: reads_103_def release_inv_def)
  have all_final: "reads_103 Acquire (publish Release p) heap (map field_value inner_words)"
    by (rule ordered_stores_read [OF assms]) (simp add: list_all2_conv_all_nth)
  have any: "reads_103 l (publish ord p) heap vs"
    if "ord \<noteq> Release \<or> l \<noteq> Acquire" "list_all2 (old_or_final heap) inner_words vs" for l ord
  proof (cases "l = Acquire")
    case True
    then show ?thesis using that by (intro unordered_stores_read [OF assms]) auto
  next
    case False
    then show ?thesis using that(2)
      by (intro ordered_stores_read [OF assms]) (auto elim!: list_all2_mono simp: old_or_final_def)
  qed
  show ?thesis
    using mixed final all_final any by (auto simp: create_buggy_def)
qed

theorem published_values_witness:
  "reads_103 Relaxed (create_buggy 4096) (\<lambda>_. 0) [1, 0, 3, 0] \<and>
   reads_103 Relaxed (publish Release 4096) (\<lambda>_. 0) [1, 0, 3, 0] \<and>
   \<not> reads_103 Acquire (publish Release 4096) (\<lambda>_. 0) [1, 0, 3, 0]"
  using published_values [of 4096 "\<lambda>_. 0" "[1, 0, 3, 0]" Relaxed Release]
    published_values [of 4096 "\<lambda>_. 0" "[1, 0, 3, 0]" Acquire Release]
  by (simp add: inner_words_def old_or_final_def field_value_def)

section \<open>The shared slice (071)\<close>

text \<open>
  The writer spins on \<open>GO\<close> and then writes a thousand times through the raw pointer, always
  at index 0; \<open>main\<close> sets \<open>GO\<close> and sums the slice it built over the same memory. The slice
  is not a copy: each element is read when the loop reaches it. The model executes the
  program as written, without the liberties the undefined behaviour gives to a compiler.
\<close>

datatype writer_071 = Waiting | Writing nat

datatype main_pc_071 = Starting | Summing nat u32

record state_071 =
  GO :: bool
  buf :: "u8 list"
  writer :: writer_071
  summer :: main_pc_071

definition buggy_iter_over_user_mem :: "u8 list \<Rightarrow> nat \<Rightarrow> u8 list" where
  "buggy_iter_over_user_mem mem len = take len mem"

fun step_writer :: "state_071 \<Rightarrow> writer_071 \<Rightarrow> state_071 option" where
  "step_writer s Waiting = Some (if GO s then s\<lparr>writer := Writing 0\<rparr> else s)"
| "step_writer s (Writing i) =
     (if i < 1000
      then Some (s\<lparr>buf := (buf s)[0 := word_of_nat i AND 0xFF], writer := Writing (i + 1)\<rparr>)
      else None)"

fun step_main :: "state_071 \<Rightarrow> main_pc_071 \<Rightarrow> state_071 option" where
  "step_main s Starting = Some (s\<lparr>GO := True, summer := Summing 0 0\<rparr>)"
| "step_main s (Summing i tot) =
     (let slice_ref = buggy_iter_over_user_mem (buf s) 8 in
      if i < length slice_ref
      then Some (s\<lparr>summer := Summing (i + 1) (tot + ucast (slice_ref ! i))\<rparr>)
      else None)"

inductive step_071 :: "state_071 \<Rightarrow> state_071 \<Rightarrow> bool" where
  writer: "step_writer s (writer s) = Some s' \<Longrightarrow> step_071 s s'"
| main: "step_main s (summer s) = Some s' \<Longrightarrow> step_071 s s'"

definition init_071 :: state_071 where
  "init_071 = \<lparr>GO = False, buf = replicate 8 0, writer = Waiting, summer = Starting\<rparr>"

text \<open>\<open>main\<close> after the join, and the sums it can print.\<close>

definition main_071 :: "state_071 \<Rightarrow> unit io option" where
  "main_071 s =
     (case (writer s, summer s) of
        (Writing i, Summing j tot) \<Rightarrow> (if i = 1000 \<and> j = 8 then Some (println [VNat (unat tot)]) else None)
      | _ \<Rightarrow> None)"

lemma main_071_printed:
  "main_071 s = Some (println [VNat (unat tot)]) \<longleftrightarrow> writer s = Writing 1000 \<and> summer s = Summing 8 tot"
  by (auto simp: main_071_def println_def word_unat_eq_iff split: writer_071.splits main_pc_071.splits)

definition printed_071 :: "u32 \<Rightarrow> bool" where
  "printed_071 tot \<longleftrightarrow>
     (\<exists>s. step_071\<^sup>*\<^sup>* init_071 s \<and> main_071 s = Some (println [VNat (unat tot)]))"

definition inv_071 :: "state_071 \<Rightarrow> bool" where
  "inv_071 s \<longleftrightarrow> (\<exists>x. buf s = x # replicate 7 0) \<and>
     (case summer s of Starting \<Rightarrow> True | Summing i tot \<Rightarrow> (if i = 0 then tot = 0 else unat tot < 256))"

lemma unat_u8_to_u32: "unat (ucast (x :: u8) :: u32) = unat x"
  by (rule unat_ucast_up) simp

lemma inv_step_071: "step_071 s s' \<Longrightarrow> inv_071 s \<Longrightarrow> inv_071 s'"
proof (induction rule: step_071.induct)
  case (writer s s')
  then show ?case
    by (cases "writer s") (auto simp: inv_071_def split: if_splits main_pc_071.splits)
next
  case (main s s')
  show ?case
  proof (cases "summer s")
    case Starting
    then show ?thesis using main by (auto simp: inv_071_def)
  next
    case (Summing i tot)
    obtain x where x: "buf s = x # replicate 7 0" using main.prems by (auto simp: inv_071_def)
    then have i: "i < 8" "s' = s\<lparr>summer := Summing (i + 1) (tot + ucast (buf s ! i))\<rparr>"
      using main.hyps Summing by (auto simp: buggy_iter_over_user_mem_def split: if_splits)
    have "unat (tot + ucast (buf s ! i)) < 256"
    proof (cases i)
      case 0
      then show ?thesis
        using main.prems Summing unat_word_less [of x] by (simp add: inv_071_def x unat_u8_to_u32)
    next
      case (Suc k)
      then have "buf s ! i = 0" using i(1) by (simp add: x)
      then show ?thesis using main.prems Summing Suc by (simp add: inv_071_def)
    qed
    then show ?thesis using x i(2) by (simp add: inv_071_def)
  qed
qed

interpretation slice: step_invariant step_071 inv_071
  by unfold_locales (rule inv_step_071)

lemma inv_reachable_071: "step_071\<^sup>*\<^sup>* init_071 s \<Longrightarrow> inv_071 s"
  by (erule slice.reachable) (simp add: inv_071_def init_071_def numeral_eq_Suc)

lemma write_up_to:
  assumes "i \<le> j" "j \<le> 1000" "writer s = Writing i" "buf s \<noteq> []"
  shows "\<exists>s'. step_071\<^sup>*\<^sup>* s s' \<and> writer s' = Writing j \<and> summer s' = summer s \<and>
    buf s' = (if i < j then word_of_nat (j - 1) AND 0xFF else hd (buf s)) # tl (buf s)"
  using assms(1,2)
proof (induction j rule: dec_induct)
  case base
  then show ?case using assms(3,4) by (intro exI [of _ s]) simp
next
  case (step j)
  then obtain s' where s': "step_071\<^sup>*\<^sup>* s s'" "writer s' = Writing j" "summer s' = summer s"
      "tl (buf s') = tl (buf s)" "buf s' \<noteq> []"
    by auto
  let ?s = "s'\<lparr>buf := (buf s')[0 := word_of_nat j AND 0xFF], writer := Writing (j + 1)\<rparr>"
  have "step_071 s' ?s" using s'(2) step by (intro step_071.writer) simp
  then show ?case
    using s' step by (intro exI [of _ ?s]) (cases "buf s'", auto)
qed

lemma sum_all:
  assumes "summer s = Summing i tot" "length (buf s) = 8" "i \<le> 8"
  shows "step_071\<^sup>*\<^sup>* s (s\<lparr>summer := Summing 8 (tot + sum_list (map ucast (drop i (buf s))))\<rparr>)"
  using assms
proof (induction "8 - i" arbitrary: i tot s)
  case 0
  then show ?case by (cases s) simp
next
  case (Suc n)
  let ?s = "s\<lparr>summer := Summing (i + 1) (tot + ucast (buf s ! i))\<rparr>"
  have i: "i < 8" using Suc.hyps(2) by simp
  have "step_071 s ?s"
    using Suc.prems i by (intro step_071.main) (simp add: buggy_iter_over_user_mem_def)
  moreover have "step_071\<^sup>*\<^sup>* ?s (s\<lparr>summer := Summing 8 (tot + sum_list (map ucast (drop i (buf s))))\<rparr>)"
    using Suc.hyps(1) [of "i + 1" ?s "tot + ucast (buf s ! i)"] Suc.hyps(2) Suc.prems i
    by (simp add: Cons_nth_drop_Suc [symmetric, of i "buf s"] add.assoc)
  ultimately show ?case by (rule converse_rtranclp_into_rtranclp)
qed

text \<open>C15. The slice does not have one value: over all interleavings of the two threads the sum
  the program can print is every number below 256, and no other.\<close>

theorem shared_slice_sums:
  "printed_071 tot = (unat tot < 256)"
proof
  show "unat tot < 256" if "printed_071 tot"
    using that inv_reachable_071 by (fastforce simp: printed_071_def main_071_printed inv_071_def)
  assume "unat tot < 256"
  define v where "v = unat tot"
  have v: "v < 256" using \<open>unat tot < 256\<close> by (simp add: v_def)
  let ?a = "init_071\<lparr>GO := True, summer := Summing 0 0\<rparr>"
  let ?b = "?a\<lparr>writer := Writing 0\<rparr>"
  have "step_071 init_071 ?a" by (intro step_071.main) (simp add: init_071_def)
  moreover have "step_071 ?a ?b" by (intro step_071.writer) (simp add: init_071_def)
  ultimately have ab: "step_071\<^sup>*\<^sup>* init_071 ?b" by auto
  obtain c where c: "step_071\<^sup>*\<^sup>* ?b c" "writer c = Writing (Suc v)" "summer c = Summing 0 0"
      "buf c = (word_of_nat v AND 0xFF) # replicate 7 0"
    using write_up_to [of 0 "Suc v" ?b] v by (auto simp: init_071_def)
  let ?d = "c\<lparr>summer := Summing 8 (ucast (word_of_nat v AND 0xFF :: u8))\<rparr>"
  have "step_071\<^sup>*\<^sup>* c ?d"
    using sum_all [OF c(3)] by (simp add: c(4) sum_list_replicate)
  moreover obtain e where "step_071\<^sup>*\<^sup>* ?d e" "writer e = Writing 1000" "summer e = summer ?d"
    using write_up_to [of "Suc v" 1000 ?d] v c by auto
  ultimately have "step_071\<^sup>*\<^sup>* init_071 e" using ab c(1) by (meson rtranclp_trans)
  moreover have "ucast (word_of_nat v AND 0xFF :: u8) = tot"
  proof -
    have "unat (word_of_nat v AND 0xFF :: u8) = v"
      using v unat_and_mask [of "word_of_nat v :: u8" 8] by (simp add: unat_u8_of_nat mask_eq_exp_minus_1)
    then show ?thesis by (simp add: word_unat_eq_iff unat_u8_to_u32 v_def)
  qed
  ultimately show "printed_071 tot"
    unfolding printed_071_def main_071_printed using \<open>writer e = _\<close> \<open>summer e = _\<close> by auto
qed

end
