(* ===== verification/Publication_Orderings.thy ===== *)
theory Publication_Orderings
  imports Publication Views
begin

text \<open>
  The published pointer (103) under the orderings of its store and its loads: the fields of
  the box are plain memory, the pointer carries the view of the thread that published it.
\<close>

section \<open>Publisher and reader\<close>

text \<open>
  The publisher writes the fields and then stores the pointer; \<open>published\<close> is the view that
  came with it. A poll of the reader may see the pointer once it is stored, or still the null
  before it. \<open>Fetching\<close> has the fields still to read.
\<close>

datatype weak_reader = Seeking nat | Fetching "word_103 list"

record weak_103 =
  fields_103 :: "word_103 history"
  to_write :: "word_103 list"
  publisher_view :: view
  published :: "view option"
  weak_reader :: weak_reader
  reader_view :: view

fun publisher_step :: "mem_order \<Rightarrow> weak_103 \<Rightarrow> weak_103 option" where
  "publisher_step store_ord s =
     (case to_write s of
        w # ws \<Rightarrow>
          (let (h, v) = access w True (publisher_view s) (fields_103 s)
           in Some (s\<lparr>fields_103 := h, to_write := ws, publisher_view := v\<rparr>))
      | [] \<Rightarrow>
          (if published s = None
           then Some (s\<lparr>published := Some (store_view store_ord (publisher_view s))\<rparr>) else None))"

fun weak_reader_step :: "mem_order \<Rightarrow> bool \<Rightarrow> weak_103 \<Rightarrow> weak_103 option" where
  "weak_reader_step load_ord sees_new s =
     (case weak_reader s of
        Seeking 0 \<Rightarrow> None
      | Seeking (Suc n) \<Rightarrow>
          (case (published s, sees_new) of
             (Some u, True) \<Rightarrow>
               Some (s\<lparr>weak_reader := Fetching inner_words, reader_view := load_view load_ord u (reader_view s)\<rparr>)
           | (_, False) \<Rightarrow> Some (s\<lparr>weak_reader := Seeking n\<rparr>)
           | (None, True) \<Rightarrow> None)
      | Fetching [] \<Rightarrow> None
      | Fetching (w # ws) \<Rightarrow>
          (let (h, v) = access w False (reader_view s) (fields_103 s)
           in Some (s\<lparr>fields_103 := h, weak_reader := Fetching ws, reader_view := v\<rparr>)))"

inductive step_weak_103 :: "mem_order \<Rightarrow> mem_order \<Rightarrow> weak_103 \<Rightarrow> weak_103 \<Rightarrow> bool"
  for store_ord load_ord :: mem_order where
  publisher: "publisher_step store_ord s = Some s' \<Longrightarrow> step_weak_103 store_ord load_ord s s'"
| reader: "weak_reader_step load_ord sees_new s = Some s' \<Longrightarrow> step_weak_103 store_ord load_ord s s'"

text \<open>The reader polls up to \<open>polls\<close> times; the program has 100000.\<close>

definition init_weak_103 :: "nat \<Rightarrow> weak_103" where
  "init_weak_103 polls =
     \<lparr>fields_103 = no_history, to_write = inner_words, publisher_view = {}, published = None,
      weak_reader = Seeking polls, reader_view = {}\<rparr>"

section \<open>Races\<close>

text \<open>
  With both orderings the pointer brings the whole history with it; the reader knows every
  write before it touches a field, and nothing is written any more.
\<close>

definition publication_inv :: "weak_103 \<Rightarrow> bool" where
  "publication_inv s \<longleftrightarrow> \<not> raced (fields_103 s) \<and>
     (case weak_reader s of
        Seeking n \<Rightarrow> knows_all (fields_103 s) (publisher_view s) \<and>
          (case published s of None \<Rightarrow> True | Some u \<Rightarrow> to_write s = [] \<and> knows_all (fields_103 s) u)
      | Fetching ws \<Rightarrow> to_write s = [] \<and> published s \<noteq> None \<and> knows_writes (fields_103 s) (reader_view s))"

lemma publication_publisher:
  assumes "publisher_step Release s = Some s'" "publication_inv s"
  shows "publication_inv s'"
proof (cases "to_write s")
  case Nil
  then show ?thesis
    using assms by (auto simp: publication_inv_def split: weak_reader.splits option.splits if_splits)
next
  case (Cons w ws)
  obtain h v where h: "access w True (publisher_view s) (fields_103 s) = (h, v)" by fastforce
  then show ?thesis
    using assms Cons access_known [OF _ h]
    by (auto simp: publication_inv_def split: weak_reader.splits option.splits)
qed

lemma publication_reader:
  assumes "weak_reader_step Acquire sees_new s = Some s'" "publication_inv s"
  shows "publication_inv s'"
proof (cases "weak_reader s")
  case (Seeking n)
  then obtain k where "n = Suc k" using assms(1) by (cases n) auto
  then show ?thesis
    using assms Seeking
    by (cases sees_new) (auto simp: publication_inv_def simp: knows_writes_taken split: option.splits)
next
  case (Fetching ws)
  then obtain w ws' where ws: "ws = w # ws'" using assms(1) by (cases ws) auto
  obtain h v where h: "access w False (reader_view s) (fields_103 s) = (h, v)" by fastforce
  then show ?thesis
    using assms Fetching ws read_known [OF _ h] by (auto simp: publication_inv_def)
qed

interpretation synchronised: step_invariant "step_weak_103 Release Acquire" publication_inv
proof
  show "publication_inv t" if "step_weak_103 Release Acquire s t" "publication_inv s" for s t
    using that by cases (rule publication_publisher publication_reader, assumption+)+
qed

text \<open>A run with a race: the reader finds the pointer and reads the first field.\<close>

datatype move_103 = Publish_Move | Reader_Move bool

definition act_103 :: "mem_order \<Rightarrow> mem_order \<Rightarrow> move_103 \<Rightarrow> weak_103 \<Rightarrow> weak_103 option" where
  "act_103 store_ord load_ord move s =
     (case move of Publish_Move \<Rightarrow> publisher_step store_ord s | Reader_Move new \<Rightarrow> weak_reader_step load_ord new s)"

lemma act_103_step: "act_103 store_ord load_ord move s = Some s' \<Longrightarrow> step_weak_103 store_ord load_ord s s'"
  by (auto simp: act_103_def intro: step_weak_103.intros split: move_103.splits)

lemma racing_schedule_103:
  assumes "\<not> (store_ord = Release \<and> load_ord = Acquire)"
  shows "case schedule (act_103 store_ord load_ord) (replicate 5 Publish_Move @ [Reader_Move True, Reader_Move True])
      (init_weak_103 (Suc n)) of None \<Rightarrow> False | Some s \<Rightarrow> raced (fields_103 s)"
  using assms
  by (cases "store_ord = Release"; cases "load_ord = Acquire")
    (simp_all add: act_103_def init_weak_103_def inner_words_def no_history_def access_def conflicts_def
      store_view_def load_view_def eval_nat_numeral)

lemma publication_inv_init: "publication_inv (init_weak_103 n)"
  by (simp add: publication_inv_def init_weak_103_def)

text \<open>C4. With at least one poll, some interleaving and some outcome of the relaxed loads has a
  data race on a field of the box exactly when the publishing store is not releasing or the
  reader's load not acquiring: the fix the finding asks for is enough, and neither half of
  it is.\<close>

theorem publication_race_iff:
  "(\<exists>s. (step_weak_103 store_ord load_ord)\<^sup>*\<^sup>* (init_weak_103 (Suc n)) s \<and> raced (fields_103 s)) =
   (\<not> (store_ord = Release \<and> load_ord = Acquire))"
proof (cases "store_ord = Release \<and> load_ord = Acquire")
  case True
  then show ?thesis
    using synchronised.reachable [OF _ publication_inv_init] by (auto simp: publication_inv_def)
next
  case False
  obtain s where run: "schedule (act_103 store_ord load_ord)
      (replicate 5 Publish_Move @ [Reader_Move True, Reader_Move True]) (init_weak_103 (Suc n)) = Some s"
      and "raced (fields_103 s)"
    using racing_schedule_103 [OF False, of n] by (auto split: option.splits)
  moreover have "(step_weak_103 store_ord load_ord)\<^sup>*\<^sup>* (init_weak_103 (Suc n)) s"
    by (rule schedule_run [OF act_103_step run])
  ultimately show ?thesis using False by blast
qed

end
