(* ===== verification/Panicking.thy ===== *)
theory Panicking
  imports Prelude
begin

text \<open>
  Programs about what a panic leaves behind or should have been: the poison flag of a lock
  whose guard is forgotten (068), the abort that a panic inside the hook must be (002), and
  the unwrap of an empty list of addresses (049, 050). The standard library's lock and panic
  runtime are modelled by the behaviour the programs use.
\<close>

section \<open>A read-write lock (068)\<close>

record 'a rwlock =
  write_held :: bool
  read_count :: nat
  poisoned :: bool
  contents :: 'a

definition rwlock_new :: "'a \<Rightarrow> 'a rwlock" where
  "rwlock_new x = \<lparr>write_held = False, read_count = 0, poisoned = False, contents = x\<rparr>"

definition busy :: "'a rwlock \<Rightarrow> bool" where
  "busy l \<longleftrightarrow> write_held l \<or> read_count l \<noteq> 0"

text \<open>A write guard remembers whether its thread was panicking when it was made.\<close>

record write_guard =
  was_panicking :: bool

datatype 'g lock_result = Locked 'g | Poisoned 'g | WouldBlock

definition guarded :: "'a rwlock \<Rightarrow> 'g \<Rightarrow> 'g lock_result" where
  "guarded l g = (if poisoned l then Poisoned g else Locked g)"

text \<open>\<open>write\<close> waits for the lock: \<open>None\<close> is a wait nobody ends.\<close>

definition rw_write :: "bool \<Rightarrow> 'a rwlock \<Rightarrow> ('a rwlock \<times> write_guard lock_result) option" where
  "rw_write panicking l =
     (if busy l then None
      else Some (l\<lparr>write_held := True\<rparr>, guarded l \<lparr>was_panicking = panicking\<rparr>))"

definition rw_try_write :: "bool \<Rightarrow> 'a rwlock \<Rightarrow> 'a rwlock \<times> write_guard lock_result" where
  "rw_try_write panicking l =
     (case rw_write panicking l of None \<Rightarrow> (l, WouldBlock) | Some r \<Rightarrow> r)"

definition rw_try_read :: "'a rwlock \<Rightarrow> 'a rwlock \<times> unit lock_result" where
  "rw_try_read l =
     (if write_held l then (l, WouldBlock)
      else (l\<lparr>read_count := read_count l + 1\<rparr>, guarded l ()))"

text \<open>Dropping a write guard poisons the lock if its thread began to panic since.\<close>

definition drop_write :: "bool \<Rightarrow> 'a rwlock \<Rightarrow> write_guard \<Rightarrow> 'a rwlock" where
  "drop_write panicking l g =
     l\<lparr>poisoned := poisoned l \<or> (panicking \<and> \<not> was_panicking g), write_held := False\<rparr>"

fun drop_read_result :: "'a rwlock \<Rightarrow> unit lock_result \<Rightarrow> 'a rwlock" where
  "drop_read_result l WouldBlock = l"
| "drop_read_result l r = l\<lparr>read_count := read_count l - 1\<rparr>"

text \<open>\<open>mem::forget\<close> drops nothing.\<close>

definition forget :: "'a rwlock \<Rightarrow> write_guard \<Rightarrow> 'a rwlock" where
  "forget l g = l"

record downgrader =
  write_owned :: bool

text \<open>
  The destructor of \<open>Downgrader\<close>: a guard that \<open>try_write\<close> grants is forgotten, one inside a
  poison error is dropped at the end of the block, after the reader has come and gone.
\<close>

definition downgrader_drop :: "bool \<Rightarrow> downgrader \<Rightarrow> 'a rwlock \<Rightarrow> 'a rwlock" where
  "downgrader_drop panicking d l =
     (if write_owned d then
        (let (l, g) = rw_try_write panicking l;
             l = (case g of Locked g \<Rightarrow> forget l g | _ \<Rightarrow> l);
             (l, r) = rw_try_read l;
             l = drop_read_result l r
         in (case g of Poisoned g \<Rightarrow> drop_write panicking l g | _ \<Rightarrow> l))
      else l)"

text \<open>
  The closure: lock, forget the guard, panic. A poison error makes \<open>unwrap\<close> panic and drops
  the guard inside it on the way. The lock is returned beside the outcome.
\<close>

definition forgetting_writer :: "'a rwlock \<Rightarrow> ('a rwlock \<times> unit run) option" where
  "forgetting_writer l =
     (case rw_write False l of
        None \<Rightarrow> None
      | Some (l, Locked g) \<Rightarrow> Some (forget l g, Inl ExplicitPanic)
      | Some (l, Poisoned g) \<Rightarrow> Some (drop_write True l g, Inl UnwrapErr)
      | Some (l, WouldBlock) \<Rightarrow> Some (l, Inl UnwrapErr))"

definition main_068 :: "unit io option" where
  "main_068 =
     (case forgetting_writer (rwlock_new (0 :: u32)) of
        None \<Rightarrow> None
      | Some (l, result) \<Rightarrow>
          (let poisoned = poisoned l in Some (block
             [assert_that (isl result), println [VBool poisoned], assert_that (\<not> poisoned)])))"

lemma main_068_outcome: "\<exists>m. main_068 = Some m \<and> exit_of m = Exited 0"
  by (simp add: main_068_def forgetting_writer_def rwlock_new_def rw_write_def busy_def
      guarded_def forget_def exit_simps)

text \<open>C24. On an idle, unpoisoned lock the panicking writer that forgets its guard leaves the lock
  held and unpoisoned: no later writer gets it, poisoned or not, and no \<open>Downgrader\<close> changes
  that. Had the guard been dropped, the lock would be free and poisoned.\<close>

theorem forgotten_guard:
  assumes "\<not> busy l" "\<not> poisoned l"
  shows "\<exists>l'. forgetting_writer l = Some (l', Inl ExplicitPanic) \<and>
      \<not> poisoned l' \<and> contents l' = contents l \<and> rw_write p l' = None \<and> downgrader_drop p d l' = l' \<and>
    (\<exists>l'' g. rw_write False l = Some (l'', Locked g) \<and>
      drop_write True l'' g = l\<lparr>poisoned := True\<rparr>)"
  using assms
  by (cases l) (simp add: forgetting_writer_def rw_write_def busy_def guarded_def forget_def
      downgrader_drop_def rw_try_write_def rw_try_read_def drop_write_def)

theorem forgotten_guard_witness:
  "\<exists>l'. forgetting_writer (rwlock_new (0 :: nat)) = Some (l', Inl ExplicitPanic) \<and>
     \<not> poisoned l' \<and> rw_write True l' = None"
proof -
  have "\<not> busy (rwlock_new (0 :: nat))" "\<not> poisoned (rwlock_new (0 :: nat))"
    by (simp_all add: rwlock_new_def busy_def)
  from forgotten_guard [OF this] show ?thesis by blast
qed

text \<open>
  On its own a \<open>Downgrader\<close> that owns the write access never downgrades it: it takes an idle
  lock for good and leaves a busy or a poisoned one as it was.
\<close>

lemma downgrader_drop_eq:
  "downgrader_drop p d l =
     (if write_owned d \<and> \<not> busy l \<and> \<not> poisoned l then l\<lparr>write_held := True\<rparr> else l)"
  by (cases l) (auto simp: downgrader_drop_def rw_try_write_def rw_write_def rw_try_read_def
      busy_def guarded_def forget_def drop_write_def Let_def)

section \<open>A panic in the panic hook (002)\<close>

text \<open>
  A panic runs the hook, which may return or resume another panic. Resuming inside the hook
  must abort; \<open>ignores\<close> is a runtime that unwinds instead, as the finding reports.
\<close>

datatype 'p hook_end = HookReturns | HookResumes 'p

datatype 'p unwinding = Aborted | Caught 'p

definition panic_with_hook :: "bool \<Rightarrow> ('p \<Rightarrow> 'p hook_end) \<Rightarrow> 'p \<Rightarrow> 'p unwinding" where
  "panic_with_hook ignores hook payload =
     (case hook payload of
        HookReturns \<Rightarrow> Caught payload
      | HookResumes second \<Rightarrow> (if ignores then Caught second else Aborted))"

definition main_002 :: "bool \<Rightarrow> unit io option" where
  "main_002 ignores =
     (case panic_with_hook ignores (\<lambda>_. HookResumes ''second'') ''first'' of
        Aborted \<Rightarrow> None
      | Caught err \<Rightarrow> Some (println [VSome (VStr err)]))"

lemma main_002_outcome:
  "main_002 ignores = (if ignores then Some (println [VSome (VStr ''second'')]) else None)"
  by (simp add: main_002_def panic_with_hook_def)

section \<open>No address to connect or bind (049, 050)\<close>

text \<open>\<open>resolve\<close> is \<open>to_socket_addrs\<close> of the argument's type; a slice resolves to itself.\<close>

definition next_addr :: "'s list \<Rightarrow> 's option" where
  "next_addr addrs = (case addrs of [] \<Rightarrow> None | a # _ \<Rightarrow> Some a)"

definition buggy_connect :: "('a \<Rightarrow> ('s list, 'e) result) \<Rightarrow> 'a \<Rightarrow> unit run" where
  "buggy_connect resolve addr =
     bind_run (unwrap_result (resolve addr)) (\<lambda>addrs.
       bind_run (unwrap_option (next_addr addrs)) (\<lambda>_. Inr ()))"

definition buggy_bind :: "('a \<Rightarrow> ('s list, 'e) result) \<Rightarrow> 'a \<Rightarrow> unit run" where
  "buggy_bind resolve addr =
     bind_run (unwrap_result (resolve addr)) (\<lambda>addrs.
       bind_run (unwrap_option (next_addr addrs)) (\<lambda>_. Inr ()))"

definition slice_addrs :: "'s list \<Rightarrow> ('s list, unit) result" where
  "slice_addrs addrs = Ok addrs"

definition main_049 :: "unit io" where
  "main_049 =
     (let addrs = [] :: (u32 \<times> u16) list; panicked = isl (buggy_connect slice_addrs addrs)
      in block [assert_that panicked, println []])"

definition main_050 :: "unit io" where
  "main_050 =
     (let addrs = [] :: (u32 \<times> u16) list; panicked = isl (buggy_bind slice_addrs addrs)
      in block [assert_that panicked, println []])"

lemma address_mains: "exit_of main_049 = Exited 0" "exit_of main_050 = Exited 0"
  by (simp_all add: main_049_def main_050_def buggy_connect_def buggy_bind_def slice_addrs_def
      next_addr_def exit_simps)

lemma buggy_connect_panics:
  "isl (buggy_connect resolve addr) \<longleftrightarrow> (case resolve addr of Ok addrs \<Rightarrow> addrs = [] | Err e \<Rightarrow> True)"
  by (cases "resolve addr") (auto simp: buggy_connect_def next_addr_def split: list.splits)

end
