(* ===== verification/Streams.thy ===== *)
theory Streams
  imports Descriptors Decimal
begin

text \<open>
  Programs that drive the system through a sequence of calls: a write to a stream whose
  peer is gone, with and without the signal (029), the redirected standard input of a failed
  spawn (025), and a read interrupted by a signal (123). The calls are a record of
  functions on a system state; what is documented of them is a locale.
\<close>

section \<open>Writing to a disconnected stream (029)\<close>

definition AF_UNIX :: i32 where
  "AF_UNIX = 1"

definition SOCK_STREAM :: i32 where
  "SOCK_STREAM = 1"

definition MSG_NOSIGNAL :: "platform \<Rightarrow> i32" where
  "MSG_NOSIGNAL os = (case os of MacOS \<Rightarrow> 0 | Linux \<Rightarrow> 0x4000)"

definition SIGPIPE :: i32 where
  "SIGPIPE = 13"

definition SIG_IGN :: usize where
  "SIG_IGN = 1"

definition libc_epipe :: i32 where
  "libc_epipe = 32"

text \<open>An \<open>Iovec\<close>: the bytes behind the base pointer, and the length.\<close>

record iovec =
  iov_base :: "u8 list"
  iov_len :: usize

text \<open>A write may end the process with a signal: \<open>None\<close>.\<close>

record 's stream_calls =
  c_socketpair :: "'s \<Rightarrow> i32 \<Rightarrow> i32 \<Rightarrow> i32 \<Rightarrow> 's \<times> i32 \<times> i32 \<times> i32"
  c_close :: "'s \<Rightarrow> i32 \<Rightarrow> 's \<times> i32"
  c_send :: "'s \<Rightarrow> i32 \<Rightarrow> u8 list \<Rightarrow> usize \<Rightarrow> i32 \<Rightarrow> ('s \<times> isize) option"
  c_writev :: "'s \<Rightarrow> i32 \<Rightarrow> iovec list \<Rightarrow> i32 \<Rightarrow> ('s \<times> isize) option"
  c_signal :: "'s \<Rightarrow> i32 \<Rightarrow> usize \<Rightarrow> 's \<times> usize"
  c_errno :: "'s \<Rightarrow> i32"

definition make_pair :: "'s stream_calls \<Rightarrow> 's \<Rightarrow> 's \<times> (i32 \<times> i32) run" where
  "make_pair c s =
     (let (s, r, sv0, sv1) = c_socketpair c s AF_UNIX SOCK_STREAM 0
      in (s, if r = 0 then Inr (sv0, sv1) else Inl AssertFailed))"

text \<open>
  The two halves of \<open>main\<close> differ in the call on the disconnected stream: each opens a pair,
  closes the peer, writes sixteen bytes, saves the error number and closes the stream.
\<close>

definition disconnected ::
  "'s stream_calls \<Rightarrow> ('s \<Rightarrow> i32 \<Rightarrow> ('s \<times> isize) option) \<Rightarrow> 's \<Rightarrow> ('s \<times> (isize \<times> i32) run) option" where
  "disconnected c write_payload s =
     (case make_pair c s of
        (s, Inl e) \<Rightarrow> Some (s, Inl e)
      | (s, Inr (a, b)) \<Rightarrow>
          (let (s, _) = c_close c s b in
           case write_payload s a of
             None \<Rightarrow> None
           | Some (s, r) \<Rightarrow>
               (let e = c_errno c s; (s, _) = c_close c s a in Some (s, Inr (r, e)))))"

definition payload :: "u8 list" where
  "payload = replicate 16 0"

definition send_payload :: "'s stream_calls \<Rightarrow> platform \<Rightarrow> 's \<Rightarrow> i32 \<Rightarrow> ('s \<times> isize) option" where
  "send_payload c os s a = c_send c s a payload 16 (MSG_NOSIGNAL os)"

definition writev_payload :: "'s stream_calls \<Rightarrow> 's \<Rightarrow> i32 \<Rightarrow> ('s \<times> isize) option" where
  "writev_payload c s a =
     (let iov = \<lparr>iov_base = payload, iov_len = 16\<rparr> in c_writev c s a [iov] 1)"

definition report_029 :: "isize \<Rightarrow> i32 \<Rightarrow> unit io" where
  "report_029 r writev_errno = block
     [println [VInt (sint r), VInt (sint writev_errno)],
      if sint r < 0 \<and> writev_errno = libc_epipe
      then block [println [], println [VInt (sint SIGPIPE)], println [], exit_process 0]
      else block [println [], exit_process 1]]"

definition main_029 :: "'s stream_calls \<Rightarrow> platform \<Rightarrow> 's \<Rightarrow> ('s \<times> unit io) option" where
  "main_029 c os s =
     (let (s, _) = c_signal c s SIGPIPE SIG_IGN in
      case disconnected c (send_payload c os) s of
        None \<Rightarrow> None
      | Some (s, Inl e) \<Rightarrow> Some (s, ([], Inl (Panicked e)))
      | Some (s, Inr (r, send_errno)) \<Rightarrow>
          (case disconnected c (writev_payload c) s of
             None \<Rightarrow> None
           | Some (s, out) \<Rightarrow>
               Some (s, block [println [VInt (sint r), VInt (sint send_errno)],
                 lift_run out (\<lambda>(r, writev_errno). report_029 r writev_errno)])))"

subsection \<open>What the calls promise\<close>

text \<open>
  \<open>ignored\<close>: the signal is ignored; \<open>joined s a b\<close>: \<open>a\<close> and \<open>b\<close> are the only descriptors of
  the two ends of a stream; \<open>broken s a\<close>: \<open>a\<close> is an end whose peer is closed. A write to a
  broken end fails with \<open>EPIPE\<close>, and raises the signal unless it is ignored or, for \<open>send\<close>,
  suppressed by the flag.
\<close>

locale stream_kernel =
  fixes c :: "'s stream_calls"
    and ignored :: "'s \<Rightarrow> bool"
    and joined :: "'s \<Rightarrow> i32 \<Rightarrow> i32 \<Rightarrow> bool"
    and broken :: "'s \<Rightarrow> i32 \<Rightarrow> bool"
  assumes signal_law: "c_signal c s SIGPIPE SIG_IGN = (s', old) \<Longrightarrow> ignored s'"
    and pair_law: "c_socketpair c s AF_UNIX SOCK_STREAM 0 = (s', r, a, b) \<Longrightarrow>
      ignored s' = ignored s \<and> (if r = 0 then joined s' a b else True)"
    and close_law: "c_close c s b = (s', r) \<Longrightarrow>
      ignored s' = ignored s \<and> (if joined s a b then broken s' a else True)"
    and send_law: "broken s a \<Longrightarrow>
      (if ignored s \<or> flags AND 0x4000 \<noteq> 0
       then (\<exists>s'. c_send c s a bs n flags = Some (s', - 1) \<and> c_errno c s' = libc_epipe \<and> ignored s' = ignored s)
       else c_send c s a bs n flags = None)"
    and writev_law: "broken s a \<Longrightarrow>
      (if ignored s
       then (\<exists>s'. c_writev c s a iov iovcnt = Some (s', - 1) \<and> c_errno c s' = libc_epipe \<and> ignored s' = ignored s)
       else c_writev c s a iov iovcnt = None)"
begin

text \<open>What a half does, given what its call does on a broken end.\<close>

lemma half:
  assumes call: "\<And>s a. broken s a \<Longrightarrow>
      (if survives (ignored s)
       then (\<exists>s'. w s a = Some (s', - 1) \<and> c_errno c s' = libc_epipe \<and> ignored s' = ignored s)
       else w s a = None)"
    and pair: "make_pair c s = (s1, Inr p)"
  shows "if survives (ignored s)
    then (\<exists>s'. disconnected c w s = Some (s', Inr (- 1, libc_epipe)) \<and> ignored s' = ignored s)
    else disconnected c w s = None"
proof -
  obtain a b where p: "p = (a, b)" by fastforce
  obtain t r a' b' where sp: "c_socketpair c s AF_UNIX SOCK_STREAM 0 = (t, r, a', b')"
    by (cases "c_socketpair c s AF_UNIX SOCK_STREAM 0") auto
  then have j: "joined s1 a b" "ignored s1 = ignored s"
    using pair pair_law [OF sp] by (auto simp: make_pair_def p split: if_splits)
  obtain s2 x where cl: "c_close c s1 b = (s2, x)" by fastforce
  have br: "broken s2 a" "ignored s2 = ignored s"
    using close_law [OF cl, of a] j by auto
  show ?thesis
  proof (cases "survives (ignored s)")
    case True
    then obtain s3 where s3: "w s2 a = Some (s3, - 1)" "c_errno c s3 = libc_epipe" "ignored s3 = ignored s"
      using call [OF br(1)] br(2) by auto
    obtain s4 y where cl': "c_close c s3 a = (s4, y)" by fastforce
    then show ?thesis
      using True s3 close_law [OF cl'] by (simp add: disconnected_def pair p cl)
  next
    case False
    then show ?thesis
      using call [OF br(1)] br(2) by (simp add: disconnected_def pair p cl)
  qed
qed

lemma failing_pair: "make_pair c s = (s1, Inl e) \<Longrightarrow> disconnected c w s = Some (s1, Inl e)"
  by (simp add: disconnected_def)

lemma send_half:
  assumes "make_pair c s = (s1, Inr p)"
  shows "if ignored s \<or> os = Linux
    then (\<exists>s'. disconnected c (send_payload c os) s = Some (s', Inr (- 1, libc_epipe)) \<and> ignored s' = ignored s)
    else disconnected c (send_payload c os) s = None"
proof -
  have flag: "(MSG_NOSIGNAL os AND 0x4000 \<noteq> 0) = (os = Linux)"
    by (cases os) (simp_all add: MSG_NOSIGNAL_def)
  show ?thesis
    by (rule half [where survives = "\<lambda>i. i \<or> os = Linux", OF _ assms], unfold send_payload_def)
      (use send_law [where flags = "MSG_NOSIGNAL os"] flag in simp)
qed

lemma writev_half:
  assumes "make_pair c s = (s1, Inr p)"
  shows "if ignored s
    then (\<exists>s'. disconnected c (writev_payload c) s = Some (s', Inr (- 1, libc_epipe)) \<and> ignored s' = ignored s)
    else disconnected c (writev_payload c) s = None"
  by (rule half [where survives = "\<lambda>i. i", OF _ assms], unfold writev_payload_def Let_def) (rule writev_law)

lemma program:
  "case main_029 c os s of
     None \<Rightarrow> False
   | Some (s', m) \<Rightarrow> exit_of m = Exited 0 \<or> exit_of m = Panicked AssertFailed"
proof -
  obtain s0 x where sig: "c_signal c s SIGPIPE SIG_IGN = (s0, x)" by fastforce
  have ign: "ignored s0" by (rule signal_law [OF sig])
  obtain s1 r1 where one: "make_pair c s0 = (s1, r1)" by fastforce
  show ?thesis
  proof (cases r1)
    case (Inl e)
    then have "e = AssertFailed" using one by (auto simp: make_pair_def split: prod.splits if_splits)
    then show ?thesis using failing_pair one Inl by (auto simp: main_029_def sig exit_simps)
  next
    case (Inr p1)
    then obtain s2 where s2: "disconnected c (send_payload c os) s0 = Some (s2, Inr (- 1, libc_epipe))" "ignored s2"
      using send_half [of s0 s1 p1 os] one ign by auto
    obtain s3 r3 where two: "make_pair c s2 = (s3, r3)" by fastforce
    show ?thesis
    proof (cases r3)
      case (Inl e)
      then have "e = AssertFailed" using two by (auto simp: make_pair_def split: prod.splits if_splits)
      then show ?thesis
        using failing_pair two Inl s2 by (auto simp: main_029_def sig exit_simps)
    next
      case (Inr p3)
      then obtain s4 where "disconnected c (writev_payload c) s2 = Some (s4, Inr (- 1, libc_epipe))"
        using writev_half [of s2 s3 p3] two s2(2) by auto
      then show ?thesis
        using s2 by (auto simp: main_029_def sig report_029_def exit_simps)
    qed
  qed
qed

end

text \<open>A kernel with the calls: \<open>socks\<close> maps an open descriptor to its peer, if it still has one.\<close>

record sock_kernel =
  socks :: "i32 \<Rightarrow> i32 option option"
  sigpipe_ignored :: bool
  last_errno :: i32

definition k_socketpair :: "sock_kernel \<Rightarrow> i32 \<Rightarrow> i32 \<Rightarrow> i32 \<Rightarrow> sock_kernel \<times> i32 \<times> i32 \<times> i32" where
  "k_socketpair s domain ty proto =
     (case filter (\<lambda>i. socks s (word_of_nat i) = None) [3..<1024] of
        i # j # _ \<Rightarrow>
          (let a = word_of_nat i; b = word_of_nat j
           in (s\<lparr>socks := (socks s)(a \<mapsto> Some b, b \<mapsto> Some a)\<rparr>, 0, a, b))
      | _ \<Rightarrow> (s\<lparr>last_errno := 24\<rparr>, - 1, 0, 0))"

definition k_close :: "sock_kernel \<Rightarrow> i32 \<Rightarrow> sock_kernel \<times> i32" where
  "k_close s b =
     (case socks s b of
        None \<Rightarrow> (s\<lparr>last_errno := 9\<rparr>, - 1)
      | Some None \<Rightarrow> (s\<lparr>socks := (socks s)(b := None)\<rparr>, 0)
      | Some (Some a) \<Rightarrow> (s\<lparr>socks := (socks s)(a \<mapsto> None, b := None)\<rparr>, 0))"

definition k_transfer :: "sock_kernel \<Rightarrow> i32 \<Rightarrow> bool \<Rightarrow> isize \<Rightarrow> (sock_kernel \<times> isize) option" where
  "k_transfer s a quiet n =
     (case socks s a of
        None \<Rightarrow> Some (s\<lparr>last_errno := 9\<rparr>, - 1)
      | Some None \<Rightarrow> (if sigpipe_ignored s \<or> quiet then Some (s\<lparr>last_errno := libc_epipe\<rparr>, - 1) else None)
      | Some (Some b) \<Rightarrow> Some (s, n))"

definition sock_calls :: "sock_kernel stream_calls" where
  "sock_calls = \<lparr>c_socketpair = k_socketpair, c_close = k_close,
     c_send = (\<lambda>s a bs n flags. k_transfer s a (flags AND 0x4000 \<noteq> 0) n),
     c_writev = (\<lambda>s a iov n. k_transfer s a False (sum_list (map iov_len iov))),
     c_signal = (\<lambda>s signum handler.
       if signum = SIGPIPE then (s\<lparr>sigpipe_ignored := (handler = SIG_IGN)\<rparr>, of_bool (sigpipe_ignored s)) else (s, 0)),
     c_errno = last_errno\<rparr>"

definition sock_joined :: "sock_kernel \<Rightarrow> i32 \<Rightarrow> i32 \<Rightarrow> bool" where
  "sock_joined s a b \<longleftrightarrow> socks s a = Some (Some b) \<and> socks s b = Some (Some a) \<and> a \<noteq> b"

lemma free_pair_distinct:
  assumes "filter Q xs = i # j # is" "distinct xs" "\<And>k. k \<in> set xs \<Longrightarrow> k < 1024"
  shows "(word_of_nat i :: i32) \<noteq> word_of_nat j"
proof -
  have "distinct (i # j # is)" unfolding assms(1) [symmetric] by (rule distinct_filter [OF assms(2)])
  moreover have "set (i # j # is) \<subseteq> set xs" unfolding assms(1) [symmetric] by (rule filter_is_subset)
  ultimately have "i \<noteq> j" "i < 1024" "j < 1024" using assms(3) by auto
  then show ?thesis
    using unat_i32_of_nat [of i] unat_i32_of_nat [of j] by (metis less_imp_le_nat)
qed

lemma sock_pair_joined:
  assumes "k_socketpair s d t p = (s', r, a, b)"
  shows "sigpipe_ignored s' = sigpipe_ignored s \<and> (if r = 0 then sock_joined s' a b else True)"
proof -
  define free where "free = filter (\<lambda>i. socks s (word_of_nat i) = None) [3..<1024]"
  show ?thesis
  proof (cases "\<exists>i j is. free = i # j # is")
    case True
    then obtain i j "is" where f: "free = i # j # is" by blast
    then have "(word_of_nat i :: i32) \<noteq> word_of_nat j" 
      unfolding free_def
      by (rule free_pair_distinct [OF _ distinct_upt]) (simp only: set_upt atLeastLessThan_iff)
    then show ?thesis
      using assms unfolding k_socketpair_def free_def [symmetric] f
      by (auto simp: sock_joined_def Let_def)
  next
    case False
    then have "k_socketpair s d t p = (s\<lparr>last_errno := 24\<rparr>, - 1, 0, 0)"
      unfolding k_socketpair_def free_def [symmetric] by (auto split: list.split)
    then show ?thesis using assms by auto
  qed
qed

interpretation sockets: stream_kernel sock_calls sigpipe_ignored sock_joined "\<lambda>s a. socks s a = Some None"
proof unfold_locales
  show "sigpipe_ignored s' = sigpipe_ignored s \<and> (if r = 0 then sock_joined s' a b else True)"
    if "c_socketpair sock_calls s AF_UNIX SOCK_STREAM 0 = (s', r, a, b)" for s s' r a b
    using sock_pair_joined that by (simp add: sock_calls_def)
  show "sigpipe_ignored s' = sigpipe_ignored s \<and> (if sock_joined s a b then socks s' a = Some None else True)"
    if "c_close sock_calls s b = (s', r)" for s s' b r a
    using that by (auto simp: sock_calls_def k_close_def sock_joined_def split: option.splits)
qed (auto simp: sock_calls_def k_transfer_def)

text \<open>C32. Under the documented behaviour of the calls, a write to a stream whose peer is closed
  returns \<open>EPIPE\<close> through \<open>send\<close> on Linux in any case, and through \<open>writev\<close>, or \<open>send\<close> on
  macOS where the flag is zero, only if the signal is ignored: otherwise the process is
  killed. So the program, which ignores the signal first, always returns, and exits with
  status 0 unless a pair cannot be made.\<close>

theorem disconnected_writes:
  assumes "stream_kernel c ignored joined broken"
    and "make_pair c s = (s1, Inr p)"
  shows "(if ignored s \<or> os = Linux
      then (\<exists>s'. disconnected c (send_payload c os) s = Some (s', Inr (- 1, libc_epipe)))
      else disconnected c (send_payload c os) s = None) \<and>
    (if ignored s
      then (\<exists>s'. disconnected c (writev_payload c) s = Some (s', Inr (- 1, libc_epipe)))
      else disconnected c (writev_payload c) s = None) \<and>
    (case main_029 c os s of
       None \<Rightarrow> False
     | Some (s', m) \<Rightarrow> exit_of m = Exited 0 \<or> exit_of m = Panicked AssertFailed)"
  using stream_kernel.send_half [OF assms, of os] stream_kernel.writev_half [OF assms]
    stream_kernel.program [OF assms(1), of os s]
  by (auto split: if_splits)

definition empty_sockets :: sock_kernel where
  "empty_sockets = \<lparr>socks = (\<lambda>_. None), sigpipe_ignored = False, last_errno = 0\<rparr>"

lemma empty_pair: "\<exists>s1. make_pair sock_calls empty_sockets = (s1, Inr (3, 4))"
proof -
  obtain rest where u: "[3..<1024] = 3 # 4 # rest"
  proof
    have "[3..<1024] = 3 # [Suc 3..<1024]" by (rule upt_conv_Cons) simp
    also have "[Suc 3..<1024] = Suc 3 # [Suc (Suc 3)..<1024]" by (rule upt_conv_Cons) simp
    also have "Suc 3 = 4" by simp
    finally show "[3..<1024] = 3 # 4 # [Suc 4..<1024]" .
  qed
  show ?thesis
    unfolding make_pair_def sock_calls_def k_socketpair_def u
    by (simp add: empty_sockets_def)
qed

theorem disconnected_writes_witness:
  "(\<exists>s'. disconnected sock_calls (send_payload sock_calls Linux) empty_sockets = Some (s', Inr (- 1, libc_epipe))) \<and>
   disconnected sock_calls (send_payload sock_calls MacOS) empty_sockets = None \<and>
   disconnected sock_calls (writev_payload sock_calls) empty_sockets = None"
proof -
  obtain s1 where pair: "make_pair sock_calls empty_sockets = (s1, Inr (3, 4))" using empty_pair by blast
  note w = disconnected_writes [OF sockets.stream_kernel_axioms pair]
  show ?thesis using w [of Linux] w [of MacOS] by (simp add: empty_sockets_def)
qed

section \<open>The redirected standard input of a failed spawn (025)\<close>

record 's file_calls =
  f_create :: "'s \<Rightarrow> string \<Rightarrow> 's \<times> i32 option"
  f_write_all :: "'s \<Rightarrow> i32 \<Rightarrow> u8 list \<Rightarrow> 's \<times> (unit, unit) result"
  f_open :: "'s \<Rightarrow> string \<Rightarrow> 's \<times> i32 option"
  f_read :: "'s \<Rightarrow> i32 \<Rightarrow> nat \<Rightarrow> 's \<times> u8 list option"
  f_dup :: "'s \<Rightarrow> i32 \<Rightarrow> 's \<times> i32"
  f_dup2 :: "'s \<Rightarrow> i32 \<Rightarrow> i32 \<Rightarrow> 's \<times> i32"
  f_close :: "'s \<Rightarrow> i32 \<Rightarrow> 's \<times> i32"
  f_chdir :: "'s \<Rightarrow> string \<Rightarrow> 's \<times> i32"

definition libc_dup :: "'s file_calls \<Rightarrow> 's \<Rightarrow> i32 \<Rightarrow> 's \<times> i32" where
  "libc_dup c s fd = f_dup c s fd"

definition tmp_path :: string where
  "tmp_path = ''/tmp/poc025-redirect-input.txt''"

definition bad_dir :: string where
  "bad_dir = ''/this/definitely/does/not/exist/poc025''"

definition redirected_content :: "u8 list" where
  "redirected_content = map of_char ''REDIRECTED-STDIN-CONTENT''"

text \<open>The block that writes the file: the descriptor is closed on every way out of it.\<close>

definition write_input :: "'s file_calls \<Rightarrow> 's \<Rightarrow> 's \<times> unit run" where
  "write_input c s =
     (case f_create c s tmp_path of
        (s, None) \<Rightarrow> (s, Inl UnwrapErr)
      | (s, Some f) \<Rightarrow>
          (let (s, r) = f_write_all c s f (redirected_content @ [10]);
               (s, _) = f_close c s f
           in (s, unwrap_result r)))"

text \<open>
  The probe after the failed spawn, and the restoration of the saved descriptor. A file is
  made from the duplicate without a check, so a failed duplicate is outside its contract.
\<close>

definition probe_stdin :: "'s file_calls \<Rightarrow> 's \<Rightarrow> i32 \<Rightarrow> 's \<times> u8 list run" where
  "probe_stdin c s saved_stdin =
     (let (s, stdin_now) = libc_dup c s STDIN_FILENO in
      if stdin_now = - 1 then (s, Inl UndefinedBehavior)
      else
        (let (s, got) = f_read c s stdin_now 32;
             observed = (case got of None \<Rightarrow> [] | Some bs \<Rightarrow> take 32 bs);
             (s, _) = f_dup2 c s saved_stdin STDIN_FILENO;
             (s, _) = f_close c s saved_stdin
         in (s, Inr observed)))"

definition main_025 :: "'s file_calls \<Rightarrow> 's \<Rightarrow> 's \<times> unit io" where
  "main_025 c s =
     (case write_input c s of
        (s, Inl e) \<Rightarrow> (s, ([], Inl (Panicked e)))
      | (s, Inr _) \<Rightarrow>
          (case f_open c s tmp_path of
             (s, None) \<Rightarrow> (s, ([], Inl (Panicked UnwrapErr)))
           | (s, Some fd) \<Rightarrow>
               (let (s, saved_stdin) = f_dup c s STDIN_FILENO in
                if sint saved_stdin < 0 then (fst (f_close c s fd), ([], Inl (Panicked AssertFailed)))
                else
                  (case faux_spawn_buggy (f_dup c) (f_dup2 c) (f_close c) (f_chdir c) s fd bad_dir of
                     (s, Ok _) \<Rightarrow> (fst (f_close c s fd), ([], Inl (Panicked AssertFailed)))
                   | (s, Err _) \<Rightarrow>
                       (case probe_stdin c s saved_stdin of
                          (s, Inl e) \<Rightarrow> (s, ([], Inl (Panicked e)))
                        | (s, Inr observed) \<Rightarrow>
                            (s, block
                              [println [VList (map (VNat \<circ> unat) observed)],
                               if contains observed redirected_content
                               then block [println [], exit_process 0]
                               else block [println [], exit_process 0]]))))))"

text \<open>
  A file system over the descriptor table: the table maps a descriptor to an open file
  description, that is a path and an offset, and the disk maps paths to bytes.
\<close>

record file_system =
  table :: fd_table
  descriptions :: "nat \<Rightarrow> string \<times> nat"
  next_description :: nat
  disk :: "string \<Rightarrow> u8 list option"

definition on_table :: "(fd_table \<Rightarrow> fd_table \<times> 'r) \<Rightarrow> file_system \<Rightarrow> file_system \<times> 'r" where
  "on_table f s = (let (t, r) = f (table s) in (s\<lparr>table := t\<rparr>, r))"

definition fs_open :: "file_system \<Rightarrow> string \<Rightarrow> file_system \<times> i32 option" where
  "fs_open s path =
     (if disk s path = None then (s, None)
      else
        (let n = next_description s; (t, fd) = allocate_fd (table s) (Some n) in
         if fd = - 1 then (s, None)
         else (s\<lparr>table := t, descriptions := (descriptions s)(n := (path, 0)), next_description := n + 1\<rparr>, Some fd)))"

definition fs_create :: "file_system \<Rightarrow> string \<Rightarrow> file_system \<times> i32 option" where
  "fs_create s path = fs_open (s\<lparr>disk := (disk s)(path \<mapsto> [])\<rparr>) path"

definition fs_write_all :: "file_system \<Rightarrow> i32 \<Rightarrow> u8 list \<Rightarrow> file_system \<times> (unit, unit) result" where
  "fs_write_all s fd bs =
     (case table s fd of
        None \<Rightarrow> (s, Err ())
      | Some d \<Rightarrow>
          (let (path, off) = descriptions s d; old = (case disk s path of None \<Rightarrow> [] | Some c \<Rightarrow> c)
           in (s\<lparr>disk := (disk s)(path \<mapsto> take off old @ bs @ drop (off + length bs) old),
                 descriptions := (descriptions s)(d := (path, off + length bs))\<rparr>, Ok ())))"

definition fs_read :: "file_system \<Rightarrow> i32 \<Rightarrow> nat \<Rightarrow> file_system \<times> u8 list option" where
  "fs_read s fd n =
     (case table s fd of
        None \<Rightarrow> (s, None)
      | Some d \<Rightarrow>
          (let (path, off) = descriptions s d;
               bs = take n (drop off (case disk s path of None \<Rightarrow> [] | Some c \<Rightarrow> c))
           in (s\<lparr>descriptions := (descriptions s)(d := (path, off + length bs))\<rparr>, Some bs)))"

definition fs_calls :: "file_system file_calls" where
  "fs_calls = \<lparr>f_create = fs_create, f_write_all = fs_write_all, f_open = fs_open, f_read = fs_read,
     f_dup = (\<lambda>s fd. on_table (\<lambda>t. table_dup t fd) s),
     f_dup2 = (\<lambda>s src dst. on_table (\<lambda>t. table_dup2 t src dst) s),
     f_close = (\<lambda>s fd. on_table (\<lambda>t. table_close t fd) s),
     f_chdir = (\<lambda>s dir. (s, - 1))\<rparr>"

lemma allocated:
  assumes "first_fds n t" "n < 1024"
  shows "allocate_fd t (Some f) = (t(word_of_nat n \<mapsto> f), word_of_nat n)"
    "first_fds (Suc n) (t(word_of_nat n \<mapsto> f))" "(word_of_nat n :: i32) \<noteq> - 1"
  using allocate_first [OF assms] sint_i32_of_nat [of n] assms(2) by auto

lemma first_fds_redirect: "first_fds n t \<Longrightarrow> t fd \<noteq> None \<Longrightarrow> first_fds n (t(fd \<mapsto> f))"
  by (auto simp: first_fds_def)

definition fs_start :: file_system where
  "fs_start = \<lparr>table = standard_fds, descriptions = (\<lambda>_. (''/dev/tty'', 0)), next_description = 3, disk = (\<lambda>_. None)\<rparr>"

definition content_025 :: "u8 list" where
  "content_025 = redirected_content @ [10]"

lemma write_input_fs:
  "write_input fs_calls fs_start =
     (fs_start\<lparr>descriptions := (descriptions fs_start)(3 := (tmp_path, length content_025)),
        next_description := 4, disk := [tmp_path \<mapsto> content_025]\<rparr>, Inr ())"
proof -
  have t: "standard_fds(3 := None) = standard_fds"
    by (rule ext) (simp add: standard_fds_def)
  have n: "(3 :: i32) \<noteq> - 1" by simp
  show ?thesis
    using allocated(1) [OF first_standard, of 3]
    by (simp add: write_input_def fs_calls_def fs_create_def fs_open_def fs_write_all_def fs_start_def
        on_table_def table_close_def content_025_def t n)
qed

lemma main_025_outcome:
  "exit_of (snd (main_025 fs_calls fs_start)) = Exited 0 \<and>
   fst (run_main (snd (main_025 fs_calls fs_start))) = [[VList (map (VNat \<circ> unat) content_025)], []]"
proof -
  let ?t3 = "standard_fds(3 \<mapsto> 4)"
  let ?t4 = "?t3(4 \<mapsto> 0)"
  let ?t5 = "?t4(5 \<mapsto> 0)"
  let ?t5' = "?t5(0 \<mapsto> 4)"
  have f3: "first_fds 4 ?t3" and a3: "allocate_fd standard_fds (Some 4) = (?t3, 3)"
    using allocated(1,2) [OF first_standard, of 4] by simp_all
  have f4: "first_fds 5 ?t4" and a4: "allocate_fd ?t3 (Some 0) = (?t4, 4)"
    using allocated(1,2) [OF f3, of 0] by simp_all
  have f5: "first_fds 6 ?t5" and a5: "allocate_fd ?t4 (Some 0) = (?t5, 5)"
    using allocated(1,2) [OF f4, of 0] by simp_all
  have f5': "first_fds 6 ?t5'"
    by (rule first_fds_redirect [OF f5]) (simp add: standard_fds_def)
  have a6: "allocate_fd ?t5' (Some 4) = (?t5'(6 \<mapsto> 4), 6)"
    using allocated(1,2) [OF f5', of 4] by simp
  have len: "length content_025 = 25" by (simp add: content_025_def redirected_content_def)
  have has: "contains content_025 redirected_content" by (simp add: content_025_def)
  have z: "standard_fds 0 = Some 0" by (simp add: standard_fds_def)
  show ?thesis
    unfolding main_025_def write_input_fs prod.case sum.case
    by (simp add: fs_calls_def fs_open_def fs_start_def on_table_def table_dup_def table_dup2_def
        faux_spawn_buggy_def probe_stdin_def libc_dup_def STDIN_FILENO_def fs_read_def
        table_close_def a3 a4 a5 a6 z len has exit_simps)
      (simp add: println_def exit_process_def)
qed

section \<open>A read interrupted by a signal (123)\<close>

definition SIGUSR1 :: i32 where
  "SIGUSR1 = 30"

record sigaction_act =
  sa_handler :: usize
  sa_mask :: "u64 list"
  sa_flags :: i32

text \<open>\<open>g_kill_later\<close> is the spawned thread: it sends the signal after a tenth of a second.\<close>

record 's signal_calls =
  g_pipe :: "'s \<Rightarrow> 's \<times> i32 \<times> i32 \<times> i32"
  g_read :: "'s \<Rightarrow> i32 \<Rightarrow> nat \<Rightarrow> 's \<times> isize"
  g_close :: "'s \<Rightarrow> i32 \<Rightarrow> 's \<times> i32"
  g_sigaction :: "'s \<Rightarrow> i32 \<Rightarrow> sigaction_act \<Rightarrow> 's \<times> i32"
  g_kill_later :: "'s \<Rightarrow> i32 \<Rightarrow> i32 \<Rightarrow> 's"
  g_getpid :: "'s \<Rightarrow> i32"
  g_errno :: "'s \<Rightarrow> i32"

definition show_i32 :: "i32 \<Rightarrow> u8 list" where
  "show_i32 x = (if sint x < 0 then ascii_minus # decimal (nat (- sint x)) else decimal (nat (sint x)))"

definition read_message :: "i32 \<Rightarrow> u8 list" where
  "read_message e = map of_char ''read failed errno='' @ show_i32 e"

text \<open>The three arms of the final match.\<close>

datatype report_123 = Interrupted "u8 list" | OtherErrno "u8 list" | ReachedEof

definition classify_123 :: "i32 \<Rightarrow> (unit, i32) result \<Rightarrow> report_123" where
  "classify_123 e res =
     (case res of
        Err err \<Rightarrow>
          (let msg = read_message err in
           if e = EINTR \<or> contains msg (map of_char ''errno=4'') \<or>
             contains msg (map of_char ''errno='' @ show_i32 EINTR)
           then Interrupted msg else OtherErrno msg)
      | Ok _ \<Rightarrow> ReachedEof)"

definition print_123 :: "report_123 \<Rightarrow> unit io" where
  "print_123 r =
     (case r of
        Interrupted msg \<Rightarrow> println [VList (map (VNat \<circ> unat) msg)]
      | OtherErrno msg \<Rightarrow> println [VList (map (VNat \<circ> unat) msg)]
      | ReachedEof \<Rightarrow> println [])"

definition main_123 :: "'s signal_calls \<Rightarrow> usize \<Rightarrow> 's \<Rightarrow> ('s \<times> unit io) option" where
  "main_123 c handler s =
     (let act = \<lparr>sa_handler = handler, sa_mask = replicate 16 0, sa_flags = 0\<rparr>;
          (s, _) = g_sigaction c s SIGUSR1 act;
          (s, r, fd0, fd1) = g_pipe c s
      in if r \<noteq> 0 then Some (s, ([], Inl (Panicked AssertFailed)))
         else
           (let pid = g_getpid c s; s = g_kill_later c s pid SIGUSR1 in
            case vulnerable_read_file (g_read c) (g_errno c) s fd0 of
              None \<Rightarrow> None
            | Some (s, res) \<Rightarrow>
                (let e = g_errno c s; (s, _) = g_close c s fd0; (s, _) = g_close c s fd1
                 in Some (s, print_123 (classify_123 e res)))))"

lemma read_message_eq: "read_message e = map of_char ''read failed errno'' @ 61 # show_i32 e"
  by (simp add: read_message_def)

lemma show_i32_no_equals: "61 \<notin> set (show_i32 e)"
proof -
  have "\<not> ascii_digit 61" by (simp add: ascii_digit_def word_le_nat_alt)
  then show ?thesis
    using decimal_digits [of "nat (- sint e)"] decimal_digits [of "nat (sint e)"]
    by (auto simp: show_i32_def ascii_minus_def list_all_iff)
qed

lemma message_contains:
  "contains (read_message e) (map of_char ''errno='' @ ds) \<longleftrightarrow> (\<exists>rest. show_i32 e = ds @ rest)"
proof
  assume "contains (read_message e) (map of_char ''errno='' @ ds)"
  then obtain pre post where "map of_char ''read failed errno'' @ 61 # show_i32 e =
      (pre @ map of_char ''errno'') @ 61 # ds @ post"
    unfolding contains_iff read_message_eq by auto
  then have "show_i32 e = ds @ post"
    using show_i32_no_equals [of e] by (subst (asm) append_Cons_eq_iff) auto
  then show "\<exists>rest. show_i32 e = ds @ rest" by blast
next
  assume "\<exists>rest. show_i32 e = ds @ rest"
  then obtain rest where "show_i32 e = ds @ rest" by blast
  then have "read_message e = map of_char ''read failed '' @ (map of_char ''errno='' @ ds) @ rest"
    by (simp add: read_message_def)
  then show "contains (read_message e) (map of_char ''errno='' @ ds)"
    unfolding contains_iff by blast
qed

text \<open>
  The loop hands back the error number it read, so the match reports an interrupted read for
  every error number whose decimal begins with the digit 4, 40 to 49 among them.
\<close>

lemma classify_123_eq:
  "classify_123 e (Err e) =
     (if \<exists>rest. show_i32 e = 52 # rest then Interrupted (read_message e) else OtherErrno (read_message e))"
proof -
  have eintr: "show_i32 EINTR = [52]" by (simp add: show_i32_def EINTR_def decimal.simps)
  have "contains (read_message e) (map of_char ''errno=4'') \<longleftrightarrow> (\<exists>rest. show_i32 e = 52 # rest)"
    using message_contains [of e "[52]"] by simp
  then show ?thesis
    using message_contains [of e "[52]"] eintr
    by (auto simp: classify_123_def Let_def)
qed

text \<open>The program over scripted reads: it prints the report of the first error.\<close>

definition scripted_calls :: "(i32 \<times> read_event list) signal_calls" where
  "scripted_calls = \<lparr>g_pipe = (\<lambda>s. (s, 0, 3, 4)), g_read = scripted_read, g_close = (\<lambda>s fd. (s, 0)),
     g_sigaction = (\<lambda>s signum act. (s, 0)), g_kill_later = (\<lambda>s pid signum. s),
     g_getpid = (\<lambda>s. 1), g_errno = fst\<rparr>"

lemma main_123_outcome:
  assumes "list_all data_event es"
  shows "main_123 scripted_calls h (e0, es @ Fails e # rest) =
    Some ((e, rest), print_123 (classify_123 e (Err e)))"
  using read_to_first_error [OF assms, of e0 3 e rest]
  by (simp add: main_123_def scripted_calls_def)

end
