(* ===== verification/Spec2Isabelle.thy ===== *)
theory Spec2Isabelle
  imports Overflow Bounds Xous_Messages Uefi_Time Firmware Descriptors Races Spin_Mutex Spin_Orderings Exposure Unix_Listener Http_Request Codegen
    Allocation Simd_Features Directories Handles Rewriter_Drivers
    Library_Calls Publication Publication_Orderings Panicking Streams
begin

text \<open>
  The Rust programs of a collection of security audits.

  \<^bold>\<open>The programs.\<close> Each finding of an audit comes with a program of its own, which repeats the
  pattern of the audited code, usually a routine \<open>buggy_...\<close> and often a \<open>fixed_...\<close> or
  \<open>patched_...\<close> one, and a \<open>main\<close> that runs them on chosen inputs, asserts what the finding
  says and reports it by its exit status. The programs share no code and no state. They
  are \<open>src/rust-stdlib/pocs/NNN-*.rs\<close>, named below by their three digits,
  \<open>src/pushpin/poc/001-unix-socket/src/main.rs\<close>,
  \<open>src/pushpin/poc/012-content-length/src/main.rs\<close> and
  \<open>src/lol-html/pocs/repro-001/main.rs\<close>, \<open>repro-002/main.rs\<close>. A definition has the name of the
  function it models, with the number of the program where several programs use the name; the
  \<open>main\<close> of program N is \<open>main_N\<close>. The theorems are about the routines on all inputs, and
  about every interleaving where a program has threads; what \<open>main\<close> does on its own input is
  a lemma \<open>main_N_outcome\<close> or a group of them, which \<open>program_outcomes\<close> at the end of this theory
  collects for the programs that need no environment.

  \<^bold>\<open>How Rust is modelled.\<close> \<open>Prelude\<close>: integers are words of their width; \<open>prim_add\<close> and its
  like are the operators under a \<open>build\<close>, which has two independent switches, overflow checks
  and debug assertions, so that a theorem holds in every build unless it names one. A
  computation that can panic is a \<open>run\<close>, a sum of a panic and a value; \<open>Result\<close> is a type of
  its own since programs inspect it; \<open>catch_unwind\<close> reads the sum. A \<open>main\<close> is the list of
  lines printed, with the values they interpolate, and an exit status. Loops that the
  data bounds are recursive functions; the loops that need not end are partial functions
  whose value is an option. Calls into the operating system, the firmware or a crate are
  arguments, functions on a state; what is documented of them is a locale, with an
  interpretation on a small kernel of the same theory. \<open>UndefinedBehavior\<close> marks a use of an
  unsafe operation outside its contract. \<open>Transitions\<close>: invariants and measures of step
  relations, simulations between them and schedules, which \<open>Races\<close>, \<open>Spin_Mutex\<close>, \<open>Exposure\<close>,
  \<open>Unix_Listener\<close> and \<open>Publication\<close> instantiate. \<open>Decimal\<close>: printing and
  parsing decimal numbers. \<open>Calendar\<close>: the civil calendar by years and months.

  \<^bold>\<open>The theories and what they show.\<close>

  \<^item> \<open>Overflow\<close> (043-048, 062, 099, 105, 106, 182): machine arithmetic of a rounding, a float
    parser, a ceiling division, a table index, the negation of error codes and a widening
    multiply-add. Each routine equals its mathematical reference, with the exact inputs on
    which it panics, wraps or differs.
  \<^item> \<open>Bounds\<close> (006, 008, 009, 090, 091, 100, 142, 181): lengths and offsets from outside. The
    locale \<open>slice_validator\<close> is the contract that an accepted range lies in the buffer; the
    patched validators keep it, and accept exactly what they should.
  \<^item> \<open>Xous_Messages\<close> (021-023, 040, 042, 121, 141): message pages shared with a server. The
    receive path, byte by byte and against the contract of \<open>Read\<close>, and a lent page as its
    receiver sees it.
  \<^item> \<open>Uefi_Time\<close> (143, 144): the conversion of firmware time equals the count of days of
    \<open>Calendar\<close>; it never panics, is injective on existing times, and collides on the invalid
    ones it accepts.
  \<^item> \<open>Firmware\<close> (004, 005, 007, 060): buffers, device paths, completion tokens and the public
    table pointer. Termination of the patched path walk for every byte string and cap; what
    the unpatched one does at every cap on a node that stalls it, the endless loop included;
    the two-call protocol as the locale \<open>locate_contract\<close>.
  \<^item> \<open>Descriptors\<close> (010, 025, 026, 122, 123): what every path of a routine leaves in the table of
    descriptors or mappings, over the locales \<open>descriptor_table\<close>, \<open>file_table\<close> and
    \<open>mapping_table\<close>.
  \<^item> \<open>Streams\<close> (029, and \<open>main\<close> of 025 and 123): sequences of system calls. The locale
    \<open>stream_kernel\<close> says when a write to a broken stream fails and when it kills; a file
    system and a socket table run the programs.
  \<^item> \<open>Races\<close> (041, 067): atomic operations, sequentially consistent; the accept threads by a
    counting invariant over all schedules, a timed wait over the observations of its caller.
  \<^item> \<open>Spin_Mutex\<close> (107): any number of cores. Mutual exclusion, the refinement of a mutex whose
    calls are atomic and their completion, and the update lost when dispatching is disabled.
  \<^item> \<open>Exposure\<close> (066) and \<open>Unix_Listener\<close> (pushpin 001): what another party sees before an
    object is restricted; for the listener, the exit statuses over all interleavings and
    the states from which it can still end.
  \<^item> \<open>Publication\<close> (071, 103): unsynchronised memory. Stores in flight reach memory in any
    order their ordering allows, and reads may be performed before a load that is not
    acquiring; the exact sets of values a reader can see, for every choice of the orderings.
  \<^item> \<open>Views\<close>: data races under release and acquire orderings, as views of a history of plain
    accesses, for \<open>Spin_Orderings\<close> (107) and \<open>Publication_Orderings\<close> (103): each shows that its
    program is free of races with both orderings and that neither can be weakened.
  \<^item> \<open>Http_Request\<close> (pushpin 012): the request handler on every header list.
  \<^item> \<open>Codegen\<close> (003, 065, 093, 108, 161-163): parsing and ordering helpers of code generators.
  \<^item> \<open>Allocation\<close> (061, 069, 070, 102): which allocator family a block goes back to, along
    runs of reallocations; layouts without a check.
  \<^item> \<open>Simd_Features\<close> (063): processor feature registers.
  \<^item> \<open>Directories\<close> (020): recursive removal over any directory reader.
  \<^item> \<open>Handles\<close> (030-032): ledgers of opened and closed handles.
  \<^item> \<open>Panicking\<close> (002, 049, 050, 068): locks, hooks and unwraps under a panic.
  \<^item> \<open>Rewriter_Drivers\<close> (lol-html 001, 002): what the drivers feed the rewriter, and where they
    stop when it refuses a chunk. Both loops are instances of one.
  \<^item> \<open>Library_Calls\<close> (098, 183, 184): programs around one call of an unstable library feature,
    which is their argument. A chunk of a filter refines as many calls of \<open>next\<close>; its loop is
    modelled as the report \<open>183-out-of-bounds-write-for-zero-sized-chunks.md\<close> quotes it.

  \<^bold>\<open>Bounds and fuel.\<close> No definition carries fuel of its own. The bounds that occur are the
  code's: the cap of the path walk, the depth 4 of the directory removal, the 100000 polls of
  the reader, the iterations of the accept threads. Runs of step relations are unbounded; for
  103 and 041 a measure bounds their length. The kernels of the interpretations hand out
  descriptors below 1024, which limits the instances and not the theorems, stated over the
  locales.

  \<^bold>\<open>Not modelled.\<close> The library behind 098, 183 and 184, which is not in the repository: the
  reports quote the chunk loop of 183, and too little of that of 184. The fixed text of
  printed lines is left out, and with it \<open>Debug\<close> formatting; so are the type-level parts of the sources (trait bounds,
  lifetimes, \<open>repr\<close>) and the declarations of foreign functions beyond their use as arguments.
  Programs 105 and 106, 143 and 144, 031 and 032, and the two rewriter drivers repeat types and
  routines of each other, which are modelled once. Timing is not modelled: sleeps are
  scheduling freedom, durations arguments. The reports, the patches and the programs in Go,
  C, Python, shell and WebAssembly are outside this development.
\<close>

section \<open>The outcomes of the programs\<close>

text \<open>
  The programs that take nothing from their environment but the compiler's switches, by number;
  a value of \<open>None\<close> would be one that does not return. The sentinel is the address that 060
  prints.
\<close>

definition programs :: "build \<Rightarrow> usize \<Rightarrow> (nat \<times> unit io option) list" where
  "programs b sentinel =
    [(3, Some main_003), (4, Some (main_004 b)), (5, main_005 b), (6, Some main_006),
     (7, Some main_007), (8, Some (main_008 b)), (9, Some (main_009 b)), (20, Some main_020),
     (21, Some main_021), (22, Some main_022), (23, Some main_023), (30, Some (main_030 b)),
     (31, Some (main_031 b)), (32, Some (main_032 b)), (40, Some main_040), (42, Some main_042),
     (43, Some (main_043 b)), (44, Some main_044), (45, Some (main_045 b)),
     (46, Some (main_046 b)), (47, Some main_047), (48, Some main_048), (49, Some main_049),
     (50, Some main_050), (60, Some (main_060 sentinel)), (61, Some main_061),
     (62, Some (main_062 b)), (63, Some (main_063 b)), (65, Some main_065), (68, main_068),
     (90, Some main_090), (91, Some main_091), (93, Some main_093), (99, Some (main_099 b)),
     (100, Some main_100), (105, Some (main_105 b)), (106, Some (main_106 b)), (107, main_107),
     (108, Some main_108), (121, Some main_121), (141, Some main_141), (142, Some main_142),
     (143, Some (main_143 b)), (144, Some (main_144 b)), (161, Some main_161),
     (162, Some main_162), (163, Some main_163), (181, Some (main_181 b)),
     (182, Some (main_182 b))]"

text \<open>C28. Of the programs that stand for themselves all return and all end with status 0, which
  is how they say that the finding is there, in every build, except: 043, 045 and 046, whose
  assertion about the release build fails where debug assertions are on and overflow checks
  off; 181, which is meant to panic on the subtraction and does so where overflow is checked;
  and 182, whose assertion fails everywhere. 069 and 070 abort in the builds with debug
  assertions.\<close>

theorem program_outcomes:
  "filter (\<lambda>(n, r). r \<noteq> Some (Exited 0)) (map (\<lambda>(n, m). (n, map_option exit_of m)) (programs b sentinel)) =
     (if debug_assertions b \<and> \<not> overflow_checks b
      then [(n, Some (Panicked AssertFailed)). n \<leftarrow> [43, 45, 46]] else []) @
     (if overflow_checks b then [(181, Some (Panicked SubOverflow))] else []) @
     [(182, Some (Panicked AssertFailed))] \<and>
   (main_069 b = Aborts) = debug_assertions b \<and> (main_070 b = Aborts) = debug_assertions b"
proof -
  have "map_option exit_of (main_005 b) = Some (Exited 0)" "map_option exit_of main_068 = Some (Exited 0)"
    "map_option exit_of main_107 = Some (Exited 0)"
    using main_005_outcome [of b] main_068_outcome main_107_outcome by auto
  note outcomes = this main_003_outcome main_004_outcome main_006_outcome main_007_outcome
    main_008_outcome main_009_outcome main_020_outcome main_021_outcome main_022_outcome
    main_023_outcome main_030_outcome main_040_outcome main_042_outcome main_043_outcome
    main_044_outcome main_045_outcome main_046_outcome main_047_outcome main_048_outcome
    main_060_outcome main_061_outcome main_062_outcome main_063_outcome main_065_outcome
    main_090_outcome main_091_outcome main_093_outcome main_099_outcome main_100_outcome
    main_105_outcome main_106_outcome main_108_outcome main_121_outcome main_141_outcome
    main_142_outcome main_143_outcome main_144_outcome main_161_outcome main_162_outcome
    main_163_outcome main_181_outcome address_mains mkdir_outcomes main_182_fails
    layout_mains_abort
  show ?thesis
    by (cases "overflow_checks b"; cases "debug_assertions b") (simp_all add: programs_def outcomes)
qed

end
